theory Spec2Isabelle
  imports Complex_Main
begin

chapter \<open>NiftyNavigator: the advisory bot, the position store and the monitor\<close>

text \<open>
  The repository holds three Python files: \<^verbatim>\<open>bot.py\<close> (the advisory bot), \<^verbatim>\<open>storage/db.py\<close>
  (the position store, whose three functions \<^verbatim>\<open>bot.py\<close> repeats word for word) and
  \<^verbatim>\<open>monitor.py\<close> (the alert loop with its start and stop commands). Each function is
  modelled by a HOL function of the same name. What lies outside the repository is a
  parameter of the model:
  \<^item> \<open>nd\<close>, the decimal digits of the Unicode database beyond ASCII (Python's \<^verbatim>\<open>\d\<close>,
    \<^verbatim>\<open>int\<close> and \<^verbatim>\<open>float\<close> accept every Unicode decimal digit);
  \<^item> \<open>rnd\<close>, the rounding of a real number to a finite floating-point number, applied
    after every floating-point operation (\<^verbatim>\<open>float\<close> of a string overflows to infinity as
    IEEE doubles do; the arithmetic of the monitor is modelled on finite values);
  \<^item> \<open>agent\<close>, the language-model endpoint; \<open>price\<close>, the market-data provider;
    \<open>utcnow\<close>, the clock.
  Exceptions are values of type \<open>error\<close>; a function that can raise returns \<open>error + 'a\<close>.
\<close>

section \<open>Python strings\<close>

text \<open>
  A Python \<^verbatim>\<open>str\<close> is a sequence of Unicode code points. \<open>lit\<close> turns an ASCII literal
  into one.
\<close>

type_synonym pystr = "nat list"

definition lit :: "string \<Rightarrow> pystr" where
  "lit s = map of_char s"

text \<open>The rupee sign U+20B9, the en dash U+2013, and four ASCII characters.\<close>

definition rupee :: nat where "rupee = 8377"
definition en_dash :: nat where "en_dash = 8211"
definition comma :: nat where "comma = 44"
definition dot :: nat where "dot = 46"
definition at_sign :: nat where "at_sign = 64"
definition percent_sign :: nat where "percent_sign = 37"

text \<open>
  White space as \<^verbatim>\<open>str.strip()\<close>, \<^verbatim>\<open>str.isspace()\<close> and \<^verbatim>\<open>\s\<close> see it: the characters
  U+0009 to U+000D, U+001C to U+0020, U+0085, U+00A0, U+1680, U+2000 to U+200A, U+2028,
  U+2029, U+202F, U+205F and U+3000.
\<close>

definition is_space :: "nat \<Rightarrow> bool" where
  "is_space c \<longleftrightarrow>
     (9 \<le> c \<and> c \<le> 13) \<or> (28 \<le> c \<and> c \<le> 32) \<or> c = 133 \<or> c = 160 \<or> c = 5760 \<or>
     (8192 \<le> c \<and> c \<le> 8202) \<or> c = 8232 \<or> c = 8233 \<or> c = 8239 \<or> c = 8287 \<or> c = 12288"

text \<open>
  The decimal value of a character. ASCII digits have their usual values; no other ASCII
  character and no white-space character is a decimal digit; for the rest the Unicode
  database \<open>nd\<close> decides.
\<close>

definition digit_value :: "(nat \<Rightarrow> nat option) \<Rightarrow> nat \<Rightarrow> nat option" where
  "digit_value nd c =
     (if 48 \<le> c \<and> c \<le> 57 then Some (c - 48)
      else if c < 128 \<or> is_space c then None
      else nd c)"

definition is_digit :: "(nat \<Rightarrow> nat option) \<Rightarrow> nat \<Rightarrow> bool" where
  "is_digit nd c \<longleftrightarrow> digit_value nd c \<noteq> None"

text \<open>A database with no decimal digits beyond ASCII, for concrete examples.\<close>

definition ascii_digits :: "nat \<Rightarrow> nat option" where
  "ascii_digits c = None"

text \<open>\<^verbatim>\<open>s.strip()\<close>: white space removed at both ends.\<close>

definition strip :: "pystr \<Rightarrow> pystr" where
  "strip s = rev (dropWhile is_space (rev (dropWhile is_space s)))"

text \<open>
  \<^verbatim>\<open>s.splitlines()\<close>: the line boundaries are U+000A to U+000D, U+001C to U+001E, U+0085,
  U+2028 and U+2029; a carriage return followed by a line feed is one boundary; there is
  no empty last line after a final boundary.
\<close>

definition is_linebreak :: "nat \<Rightarrow> bool" where
  "is_linebreak c \<longleftrightarrow>
     (10 \<le> c \<and> c \<le> 13) \<or> (28 \<le> c \<and> c \<le> 30) \<or> c = 133 \<or> c = 8232 \<or> c = 8233"

fun split_acc :: "pystr \<Rightarrow> pystr \<Rightarrow> pystr list" where
  "split_acc cur [] = (if cur = [] then [] else [cur])"
| "split_acc cur [c] = (if is_linebreak c then [cur] else [cur @ [c]])"
| "split_acc cur (c # d # cs) =
     (if c = 13 \<and> d = 10 then cur # split_acc [] cs
      else if is_linebreak c then cur # split_acc [] (d # cs)
      else split_acc (cur @ [c]) (d # cs))"

definition splitlines :: "pystr \<Rightarrow> pystr list" where
  "splitlines s = split_acc [] s"

text \<open>\<^verbatim>\<open>sep.join(xs)\<close>, and \<^verbatim>\<open>str(n)\<close> for a natural number and for an integer.\<close>

fun join :: "pystr \<Rightarrow> pystr list \<Rightarrow> pystr" where
  "join sep [] = []"
| "join sep [x] = x"
| "join sep (x # y # ys) = x @ sep @ join sep (y # ys)"

fun str_nat :: "nat \<Rightarrow> pystr" where
  "str_nat n = (if n < 10 then [48 + n] else str_nat (n div 10) @ [48 + n mod 10])"

definition str_int :: "int \<Rightarrow> pystr" where
  "str_int i = (if i < 0 then 45 # str_nat (nat (- i)) else str_nat (nat i))"

datatype error = ValueError | IndexError | ZeroDivisionError | JSONDecodeError | AttributeError

section \<open>Regular expressions\<close>

text \<open>
  The two patterns of \<^verbatim>\<open>bot.py\<close> use single characters and character classes, greedy
  \<^verbatim>\<open>*\<close> and \<^verbatim>\<open>+\<close> on a class, a greedy optional group, concatenation, capturing groups
  and the end anchor \<^verbatim>\<open>$\<close>. \<open>matches r s\<close> lists every way \<open>r\<close> matches a prefix of \<open>s\<close>,
  in the order in which the backtracking matcher of \<^verbatim>\<open>re\<close> tries them: each entry holds
  the captured groups and the rest of the input. A greedy repetition tries the longest
  run first, a greedy option tries its body first.
\<close>

datatype regex =
    Chr "nat \<Rightarrow> bool"
  | Star "nat \<Rightarrow> bool"
  | Plus "nat \<Rightarrow> bool"
  | Opt regex
  | Cat regex regex
  | Grp regex
  | Eos

fun star :: "(nat \<Rightarrow> bool) \<Rightarrow> pystr \<Rightarrow> pystr list" where
  "star p [] = [[]]"
| "star p (c # cs) = (if p c then star p cs else []) @ [c # cs]"

fun plus1 :: "(nat \<Rightarrow> bool) \<Rightarrow> pystr \<Rightarrow> pystr list" where
  "plus1 p [] = []"
| "plus1 p (c # cs) = (if p c then star p cs else [])"

text \<open>\<^verbatim>\<open>$\<close> matches at the end of the string and before a line feed that ends it.\<close>

primrec matches :: "regex \<Rightarrow> pystr \<Rightarrow> (pystr list \<times> pystr) list" where
  "matches (Chr p) s = (case s of [] \<Rightarrow> [] | c # cs \<Rightarrow> if p c then [([], cs)] else [])"
| "matches (Star p) s = map (Pair []) (star p s)"
| "matches (Plus p) s = map (Pair []) (plus1 p s)"
| "matches (Opt r) s = matches r s @ [([], s)]"
| "matches (Cat r1 r2) s =
     concat (map (\<lambda>(g1, s1). map (\<lambda>(g2, s2). (g1 @ g2, s2)) (matches r2 s1)) (matches r1 s))"
| "matches (Grp r) s =
     map (\<lambda>(g, s'). (g @ [take (length s - length s') s], s')) (matches r s)"
| "matches Eos s = (if s = [] \<or> s = [10] then [([], s)] else [])"

text \<open>
  \<^verbatim>\<open>re.match\<close> takes the first match at the start of the string; \<^verbatim>\<open>re.search\<close> tries
  every start position from left to right, the end of the string included.
\<close>

definition re_match :: "regex \<Rightarrow> pystr \<Rightarrow> (pystr list \<times> pystr) option" where
  "re_match r s = (case matches r s of [] \<Rightarrow> None | m # _ \<Rightarrow> Some m)"

fun re_search :: "regex \<Rightarrow> pystr \<Rightarrow> (pystr list \<times> pystr) option" where
  "re_search r [] = re_match r []"
| "re_search r (c # cs) =
     (case re_match r (c # cs) of None \<Rightarrow> re_search r cs | Some m \<Rightarrow> Some m)"

section \<open>Input parsing in bot.py\<close>

text \<open>
  The pattern of \<^verbatim>\<open>parse_input\<close>, a rupee sign, \<^verbatim>\<open>\s*([\d,]+)\s*@\s*(\d+(?:\.\d+)?)%\<close>.
  \<open>percent_re\<close> is its last part, from the second group on.
\<close>

definition percent_re :: "(nat \<Rightarrow> nat option) \<Rightarrow> regex" where
  "percent_re nd =
     Cat (Grp (Cat (Plus (is_digit nd)) (Opt (Cat (Chr (\<lambda>c. c = dot)) (Plus (is_digit nd))))))
         (Chr (\<lambda>c. c = percent_sign))"

definition amount_percent :: "(nat \<Rightarrow> nat option) \<Rightarrow> regex" where
  "amount_percent nd =
     Cat (Chr (\<lambda>c. c = rupee))
    (Cat (Star is_space)
    (Cat (Grp (Plus (\<lambda>c. is_digit nd c \<or> c = comma)))
    (Cat (Star is_space)
    (Cat (Chr (\<lambda>c. c = at_sign))
    (Cat (Star is_space) (percent_re nd))))))"

text \<open>
  \<^verbatim>\<open>int(s)\<close> and \<^verbatim>\<open>float(s)\<close> on the strings the two groups can hold. \<open>py_int\<close> is
  \<^verbatim>\<open>int\<close> on strings of decimal digits: the empty string raises \<^verbatim>\<open>ValueError\<close>, and so
  does a string of more digits than \<^verbatim>\<open>sys.int_max_str_digits\<close>, 4300 by default (leading
  zeros count). The signs, underscores and surrounding white space that \<^verbatim>\<open>int\<close> accepts as
  well cannot occur in group 1 once its commas are removed. \<open>py_float\<close> is \<^verbatim>\<open>float\<close> on
  digits with an optional point. A Python float is a finite number or infinity here:
  a decimal of at least \<open>2^1024 - 2^970\<close>, half a unit in the last place above the
  largest double, is converted to \<^verbatim>\<open>inf\<close>, and a smaller one to the double \<open>rnd\<close> rounds
  it to.
\<close>

datatype pyfloat = Finite real | Infinity

definition int_max_str_digits :: nat where
  "int_max_str_digits = 4300"

definition float_overflow :: real where
  "float_overflow = 2 ^ 1024 - 2 ^ 970"

fun decimal :: "(nat \<Rightarrow> nat option) \<Rightarrow> nat \<Rightarrow> pystr \<Rightarrow> nat option" where
  "decimal nd acc [] = Some acc"
| "decimal nd acc (c # cs) =
     (case digit_value nd c of None \<Rightarrow> None | Some v \<Rightarrow> decimal nd (10 * acc + v) cs)"

definition py_int :: "(nat \<Rightarrow> nat option) \<Rightarrow> pystr \<Rightarrow> error + int" where
  "py_int nd s =
     (if s = [] then Inl ValueError
      else case decimal nd 0 s of
             None \<Rightarrow> Inl ValueError
           | Some n \<Rightarrow> if int_max_str_digits < length s then Inl ValueError else Inr (int n))"

definition py_float ::
  "(nat \<Rightarrow> nat option) \<Rightarrow> (real \<Rightarrow> real) \<Rightarrow> pystr \<Rightarrow> error + pyfloat" where
  "py_float nd rnd s =
     (let ip = takeWhile (\<lambda>c. c \<noteq> dot) s; fp = drop (Suc (length ip)) s
      in if ip = [] \<and> fp = [] then Inl ValueError
         else case (decimal nd 0 ip, decimal nd 0 fp) of
                (Some i, Some f) \<Rightarrow>
                  (let v = real i + real f / 10 ^ length fp
                   in Inr (if float_overflow \<le> v then Infinity else Finite (rnd v)))
              | _ \<Rightarrow> Inl ValueError)"

text \<open>
  \<^verbatim>\<open>parse_input\<close>: \<open>Inr None\<close> is the pair \<^verbatim>\<open>(None, None)\<close>, \<open>Inr (Some (amount, percent))\<close>
  a pair of numbers, \<open>Inl e\<close> an exception that leaves the function.
\<close>

definition parse_input ::
  "(nat \<Rightarrow> nat option) \<Rightarrow> (real \<Rightarrow> real) \<Rightarrow> pystr \<Rightarrow> error + (int \<times> pyfloat) option" where
  "parse_input nd rnd t =
     (case re_search (amount_percent nd) t of
        None \<Rightarrow> Inr None
      | Some (gs, _) \<Rightarrow>
          (case gs of
             g1 # g2 # _ \<Rightarrow>
               (case py_int nd (filter (\<lambda>c. c \<noteq> comma) g1) of
                  Inl e \<Rightarrow> Inl e
                | Inr amount \<Rightarrow>
                    (case py_float nd rnd g2 of
                       Inl e \<Rightarrow> Inl e
                     | Inr percent \<Rightarrow> Inr (Some (amount, percent))))
           | _ \<Rightarrow> Inl IndexError))"

section \<open>The advice flow and the message handler of bot.py\<close>

text \<open>
  The pattern \<^verbatim>\<open>^I buy\s+[A-Za-z\.]+$\<close> under \<^verbatim>\<open>re.IGNORECASE\<close>. Ignoring case, the
  letter I also matches U+0130 and U+0131, and the class of ASCII letters also matches
  U+0130, U+0131, U+017F and U+212A.
\<close>

definition ci_I :: "nat \<Rightarrow> bool" where
  "ci_I c \<longleftrightarrow> c = 73 \<or> c = 105 \<or> c = 304 \<or> c = 305"

definition ci_letter_or_dot :: "nat \<Rightarrow> bool" where
  "ci_letter_or_dot c \<longleftrightarrow>
     (65 \<le> c \<and> c \<le> 90) \<or> (97 \<le> c \<and> c \<le> 122) \<or>
     c = 304 \<or> c = 305 \<or> c = 383 \<or> c = 8490 \<or> c = dot"

definition buy_line :: regex where
  "buy_line =
     Cat (Chr ci_I)
    (Cat (Chr (\<lambda>c. c = 32))
    (Cat (Chr (\<lambda>c. c = 98 \<or> c = 66))
    (Cat (Chr (\<lambda>c. c = 117 \<or> c = 85))
    (Cat (Chr (\<lambda>c. c = 121 \<or> c = 89))
    (Cat (Plus is_space)
    (Cat (Plus ci_letter_or_dot) Eos))))))"

text \<open>
  The formatting of the picks (lines 164 to 167 of \<^verbatim>\<open>bot.py\<close>): the stripped non-blank
  lines, their numbered listing, the top pick \<^verbatim>\<open>lines[0].split(dash)[0].strip()\<close> and the
  symbol list. The separator in the source is the en dash. With no line at all
  \<^verbatim>\<open>lines[0]\<close> raises \<^verbatim>\<open>IndexError\<close>.
\<close>

definition before_dash :: "pystr \<Rightarrow> pystr" where
  "before_dash l = takeWhile (\<lambda>c. c \<noteq> en_dash) l"

definition pick_lines :: "pystr \<Rightarrow> pystr list" where
  "pick_lines picks = map strip (filter (\<lambda>l. strip l \<noteq> []) (splitlines picks))"

definition numbered :: "pystr list \<Rightarrow> pystr" where
  "numbered lines =
     join [10] (map (\<lambda>i. str_nat (i + 1) @ [46, 32] @ lines ! i) [0..<length lines])"

definition format_picks :: "pystr \<Rightarrow> error + (pystr \<times> pystr \<times> pystr)" where
  "format_picks picks =
     (let lines = pick_lines picks
      in case lines of
           [] \<Rightarrow> Inl IndexError
         | l # _ \<Rightarrow>
             Inr (numbered lines,
                  strip (before_dash l),
                  join [44, 32] (map (\<lambda>ln. strip (before_dash ln)) lines)))"

text \<open>
  The prompts sent to the language model and the replies sent to the user are kept as
  data: a reply stands for the message text the source builds from its fields.
  \<open>FinalMessage amount percent listing sanity top\<close> is the combined reply, \<open>sanity\<close> being
  \<open>None\<close> when the second call failed and the fixed "skipped" notice is sent instead.
\<close>

datatype prompt = Recommend int pyfloat | Validate pystr pyfloat

datatype reply =
    ParseErrorReply
  | Received int pyfloat
  | FinalMessage int pyfloat pystr "pystr option" pystr
  | FetchFailed

definition sanity_bullets :: "pystr \<Rightarrow> pystr" where
  "sanity_bullets validation =
     join [10] (map (\<lambda>l. [8226, 32] @ l) (take 5 (map strip (splitlines validation))))"

definition advice_flow :: "(prompt \<Rightarrow> error + pystr) \<Rightarrow> int \<Rightarrow> pyfloat \<Rightarrow> reply" where
  "advice_flow agent amount percent =
     (case agent (Recommend amount percent) of
        Inl e \<Rightarrow> FetchFailed
      | Inr picks \<Rightarrow>
          (case format_picks picks of
             Inl e \<Rightarrow> FetchFailed
           | Inr (listing, top_pick, symbols) \<Rightarrow>
               FinalMessage amount percent listing
                 (case agent (Validate symbols percent) of
                    Inl e \<Rightarrow> None
                  | Inr validation \<Rightarrow> Some (sanity_bullets validation))
                 top_pick))"

text \<open>
  \<^verbatim>\<open>handle_message\<close> returns the replies it sends, in order. An exception of
  \<^verbatim>\<open>parse_input\<close> is raised before the \<^verbatim>\<open>try\<close> block and leaves the handler.
\<close>

definition handle_message ::
  "(nat \<Rightarrow> nat option) \<Rightarrow> (real \<Rightarrow> real) \<Rightarrow> (prompt \<Rightarrow> error + pystr) \<Rightarrow> pystr
     \<Rightarrow> error + reply list" where
  "handle_message nd rnd agent message =
     (let t = strip message
      in if re_match buy_line t \<noteq> None then Inr []
         else case parse_input nd rnd t of
                Inl e \<Rightarrow> Inl e
              | Inr None \<Rightarrow> Inr [ParseErrorReply]
              | Inr (Some (amount, percent)) \<Rightarrow>
                  Inr [Received amount percent, advice_flow agent amount percent])"

section \<open>The position store of storage/db.py and bot.py\<close>

text \<open>
  The values \<^verbatim>\<open>json.load\<close> returns. The positions file is absent (\<open>None\<close>), or its text
  is a JSON document, identified with the value it denotes, or it is text that
  \<^verbatim>\<open>json.load\<close> rejects.
\<close>

datatype json =
    JNull
  | JBool bool
  | JNum real
  | JStr pystr
  | JArr "json list"
  | JObj "(pystr \<times> json) list"

datatype content = Json json | Unparsable pystr

text \<open>
  \<^verbatim>\<open>datetime.utcnow().isoformat()\<close>: the fields zero-padded, the microseconds left out
  when they are zero.
\<close>

record datetime =
  year :: nat
  month :: nat
  day :: nat
  hour :: nat
  minute :: nat
  second :: nat
  microsecond :: nat

definition zfill :: "nat \<Rightarrow> pystr \<Rightarrow> pystr" where
  "zfill w s = replicate (w - length s) 48 @ s"

definition isoformat :: "datetime \<Rightarrow> pystr" where
  "isoformat dt =
     zfill 4 (str_nat (year dt)) @ [45] @ zfill 2 (str_nat (month dt)) @ [45] @
     zfill 2 (str_nat (day dt)) @ [84] @ zfill 2 (str_nat (hour dt)) @ [58] @
     zfill 2 (str_nat (minute dt)) @ [58] @ zfill 2 (str_nat (second dt)) @
     (if microsecond dt = 0 then [] else [46] @ zfill 6 (str_nat (microsecond dt)))"

text \<open>
  \<^verbatim>\<open>load_positions\<close>, \<^verbatim>\<open>save_positions\<close> and \<^verbatim>\<open>add_position\<close>. The functions take and
  return the state of the positions file. \<^verbatim>\<open>positions.append\<close> exists on lists only: on
  any other JSON value it raises \<^verbatim>\<open>AttributeError\<close>.
\<close>

definition load_positions :: "content option \<Rightarrow> error + json" where
  "load_positions file =
     (case file of
        None \<Rightarrow> Inr (JArr [])
      | Some (Json v) \<Rightarrow> Inr v
      | Some (Unparsable _) \<Rightarrow> Inl JSONDecodeError)"

definition save_positions :: "json \<Rightarrow> content option" where
  "save_positions positions = Some (Json positions)"

definition new_position :: "pystr \<Rightarrow> real \<Rightarrow> datetime \<Rightarrow> json" where
  "new_position name price utcnow =
     JObj [(lit ''symbol'', JStr name),
           (lit ''entry_price'', JNum price),
           (lit ''timestamp'', JStr (isoformat utcnow))]"

definition add_position ::
  "datetime \<Rightarrow> pystr \<Rightarrow> real \<Rightarrow> content option \<Rightarrow> error + content option" where
  "add_position utcnow name price file =
     (case load_positions file of
        Inl e \<Rightarrow> Inl e
      | Inr (JArr positions) \<Rightarrow>
          Inr (save_positions (JArr (positions @ [new_position name price utcnow])))
      | Inr _ \<Rightarrow> Inl AttributeError)"

text \<open>A clock reading for concrete examples.\<close>

definition new_year :: datetime where
  "new_year = \<lparr>year = 2025, month = 1, day = 1, hour = 9, minute = 30, second = 0,
                microsecond = 0\<rparr>"

section \<open>The monitor of monitor.py\<close>

definition UP_THRESHOLD :: real where "UP_THRESHOLD = 3"
definition DOWN_THRESHOLD :: real where "DOWN_THRESHOLD = - 2"

text \<open>
  The body of the loop over the positions (lines 50 to 67). A position is the pair the
  loop reads from a stored record, \<^verbatim>\<open>p["symbol"]\<close> and \<^verbatim>\<open>float(p["entry_price"])\<close>.
  \<open>price\<close> is the price lookup: \<open>None\<close> when fetching raises, which the loop catches and
  skips. The division by a zero entry price raises \<^verbatim>\<open>ZeroDivisionError\<close>, outside the
  \<^verbatim>\<open>try\<close> block. An alert stands for the text built from its direction, symbol, change,
  current price and entry price.
\<close>

record position =
  symbol :: pystr
  entry_price :: real

datatype direction = Up | Down

datatype alert = Alert direction pystr real real real

definition ends_with :: "pystr \<Rightarrow> pystr \<Rightarrow> bool" where
  "ends_with s suffix \<longleftrightarrow>
     length suffix \<le> length s \<and> drop (length s - length suffix) s = suffix"

definition ticker_of :: "pystr \<Rightarrow> pystr" where
  "ticker_of name = (if ends_with name (lit ''.NS'') then name else name @ lit ''.NS'')"

definition change_pct :: "(real \<Rightarrow> real) \<Rightarrow> real \<Rightarrow> real \<Rightarrow> error + real" where
  "change_pct rnd entry current =
     (if entry = 0 then Inl ZeroDivisionError
      else Inr (rnd (rnd (rnd (current - entry) / entry) * 100)))"

definition classify :: "pystr \<Rightarrow> real \<Rightarrow> real \<Rightarrow> real \<Rightarrow> alert list" where
  "classify name entry current change =
     (if change \<ge> UP_THRESHOLD then [Alert Up name change current entry]
      else if change \<le> DOWN_THRESHOLD then [Alert Down name change current entry]
      else [])"

fun check_positions ::
  "(real \<Rightarrow> real) \<Rightarrow> (pystr \<Rightarrow> real option) \<Rightarrow> position list \<Rightarrow> alert list
     \<Rightarrow> error + alert list" where
  "check_positions rnd price [] alerts = Inr alerts"
| "check_positions rnd price (p # ps) alerts =
     (case price (ticker_of (symbol p)) of
        None \<Rightarrow> check_positions rnd price ps alerts
      | Some current \<Rightarrow>
          (case change_pct rnd (entry_price p) current of
             Inl e \<Rightarrow> Inl e
           | Inr change \<Rightarrow>
               check_positions rnd price ps
                 (alerts @ classify (symbol p) (entry_price p) current change)))"

text \<open>
  The files of the monitor and its tasks: the recipient file, the positions file, the
  marker file (present or not), the number of \<^verbatim>\<open>monitor_loop\<close> tasks created and not yet
  returned, and the replies sent.
\<close>

datatype notice = MonitoringStarted | MonitoringStopped

record monitor =
  chat_id_file :: "pystr option"
  positions_file :: "content option"
  monitor_flag_file :: bool
  loop_tasks :: nat
  replies :: "notice list"

definition clear_positions :: "monitor \<Rightarrow> monitor" where
  "clear_positions m = m\<lparr>positions_file := Some (Json (JArr []))\<rparr>"

definition start_monitor :: "int \<Rightarrow> monitor \<Rightarrow> monitor" where
  "start_monitor chat_id m =
     (let m1 = m\<lparr>chat_id_file := Some (str_int chat_id)\<rparr>;
          m2 = clear_positions m1;
          m3 = m2\<lparr>monitor_flag_file := True\<rparr>;
          m4 = m3\<lparr>replies := replies m3 @ [MonitoringStarted]\<rparr>
      in m4\<lparr>loop_tasks := loop_tasks m4 + 1\<rparr>)"

definition stop_monitor :: "monitor \<Rightarrow> monitor" where
  "stop_monitor m =
     (let m1 = (if monitor_flag_file m then m\<lparr>monitor_flag_file := False\<rparr> else m)
      in m1\<lparr>replies := replies m1 @ [MonitoringStopped]\<rparr>)"

text \<open>
  What a loop task does when it wakes (lines 43 to 47): it returns when the marker file
  is gone, it dies when \<^verbatim>\<open>load_positions\<close> raises, it sleeps again when \<^verbatim>\<open>not positions\<close>
  holds, and otherwise it goes on to price the positions.
\<close>

datatype wake = Returns | Raises error | Sleeps | Prices json

fun falsy :: "json \<Rightarrow> bool" where
  "falsy JNull = True"
| "falsy (JBool b) = (\<not> b)"
| "falsy (JNum x) = (x = 0)"
| "falsy (JStr s) = (s = [])"
| "falsy (JArr xs) = (xs = [])"
| "falsy (JObj kvs) = (kvs = [])"

definition loop_wake :: "monitor \<Rightarrow> wake" where
  "loop_wake m =
     (if \<not> monitor_flag_file m then Returns
      else case load_positions (positions_file m) of
             Inl e \<Rightarrow> Raises e
           | Inr positions \<Rightarrow> if falsy positions then Sleeps else Prices positions)"

text \<open>The state before the first start command: no file, no task.\<close>

definition idle :: monitor where
  "idle = \<lparr>chat_id_file = None, positions_file = None, monitor_flag_file = False,
            loop_tasks = 0, replies = []\<rparr>"

section \<open>The specification's notions\<close>

text \<open>
  The request pattern in the words of the specification: a rupee sign, an amount of
  digits with thousands separators, an at sign, a decimal percent and a percent sign,
  with optional white space where the pattern allows it. \<open>is_percent nd ip fr\<close> reads the
  percent as its integer digits \<open>ip\<close> and, when \<open>fr\<close> is not empty, a point and the
  fractional digits.
\<close>

definition blank :: "pystr \<Rightarrow> bool" where
  "blank ws \<longleftrightarrow> list_all is_space ws"

definition is_amount :: "(nat \<Rightarrow> nat option) \<Rightarrow> pystr \<Rightarrow> bool" where
  "is_amount nd amt \<longleftrightarrow> amt \<noteq> [] \<and> list_all (\<lambda>c. is_digit nd c \<or> c = comma) amt"

definition is_percent :: "(nat \<Rightarrow> nat option) \<Rightarrow> pystr \<Rightarrow> pystr \<Rightarrow> bool" where
  "is_percent nd ip fr \<longleftrightarrow>
     ip \<noteq> [] \<and> list_all (is_digit nd) ip \<and>
     (fr = [] \<or> (\<exists>fp. fr = dot # fp \<and> fp \<noteq> [] \<and> list_all (is_digit nd) fp))"

definition is_request :: "(nat \<Rightarrow> nat option) \<Rightarrow> pystr \<Rightarrow> bool" where
  "is_request nd m \<longleftrightarrow>
     (\<exists>ws1 amt ws2 ws3 ip fr.
        m = rupee # ws1 @ amt @ ws2 @ at_sign # ws3 @ ip @ fr @ [percent_sign] \<and>
        blank ws1 \<and> blank ws2 \<and> blank ws3 \<and> is_amount nd amt \<and> is_percent nd ip fr)"

definition contains_request :: "(nat \<Rightarrow> nat option) \<Rightarrow> pystr \<Rightarrow> bool" where
  "contains_request nd t \<longleftrightarrow> (\<exists>pre m post. t = pre @ m @ post \<and> is_request nd m)"

text \<open>
  The number a string of digits denotes, in positional notation, and the number a
  decimal with integer digits \<open>ip\<close> and fraction \<open>fr\<close> denotes.
\<close>

definition the_digit :: "(nat \<Rightarrow> nat option) \<Rightarrow> nat \<Rightarrow> nat" where
  "the_digit nd c = (case digit_value nd c of None \<Rightarrow> 0 | Some v \<Rightarrow> v)"

fun numeral_value :: "(nat \<Rightarrow> nat option) \<Rightarrow> pystr \<Rightarrow> nat" where
  "numeral_value nd [] = 0"
| "numeral_value nd (c # cs) = the_digit nd c * 10 ^ length cs + numeral_value nd cs"

definition percent_value :: "(nat \<Rightarrow> nat option) \<Rightarrow> pystr \<Rightarrow> pystr \<Rightarrow> real" where
  "percent_value nd ip fr =
     real (numeral_value nd ip) + real (numeral_value nd (tl fr)) / 10 ^ length (tl fr)"

text \<open>
  A line of the advice response: a symbol, an en dash and a rationale. The numbered
  listing of the specification: the lines in their order, the first numbered 1, each
  behind its number, a full stop and a space.
\<close>

definition dashed_line :: "pystr \<times> pystr \<Rightarrow> pystr" where
  "dashed_line p = fst p @ en_dash # snd p"

fun numbered_lines :: "nat \<Rightarrow> pystr list \<Rightarrow> pystr list" where
  "numbered_lines k [] = []"
| "numbered_lines k (l # ls) = (str_nat k @ [46, 32] @ l) # numbered_lines (Suc k) ls"

text \<open>
  A well-formed ISO-8601 timestamp of the form \<^verbatim>\<open>YYYY-MM-DDTHH:MM:SS\<close>, with an optional
  fraction of six digits, and the clock readings \<^verbatim>\<open>datetime\<close> can hold.
\<close>

definition ascii_digit :: "nat \<Rightarrow> bool" where
  "ascii_digit c \<longleftrightarrow> 48 \<le> c \<and> c \<le> 57"

definition iso8601 :: "pystr \<Rightarrow> bool" where
  "iso8601 s \<longleftrightarrow>
     (\<exists>y mo d h mi se fr.
        s = y @ [45] @ mo @ [45] @ d @ [84] @ h @ [58] @ mi @ [58] @ se @ fr \<and>
        length y = 4 \<and> length mo = 2 \<and> length d = 2 \<and>
        length h = 2 \<and> length mi = 2 \<and> length se = 2 \<and>
        list_all ascii_digit (y @ mo @ d @ h @ mi @ se) \<and>
        1 \<le> numeral_value ascii_digits mo \<and> numeral_value ascii_digits mo \<le> 12 \<and>
        1 \<le> numeral_value ascii_digits d \<and> numeral_value ascii_digits d \<le> 31 \<and>
        numeral_value ascii_digits h \<le> 23 \<and>
        numeral_value ascii_digits mi \<le> 59 \<and>
        numeral_value ascii_digits se \<le> 59 \<and>
        (fr = [] \<or> (\<exists>us. fr = 46 # us \<and> length us = 6 \<and> list_all ascii_digit us)))"

definition valid_datetime :: "datetime \<Rightarrow> bool" where
  "valid_datetime dt \<longleftrightarrow>
     1 \<le> year dt \<and> year dt \<le> 9999 \<and> 1 \<le> month dt \<and> month dt \<le> 12 \<and>
     1 \<le> day dt \<and> day dt \<le> 31 \<and> hour dt \<le> 23 \<and> minute dt \<le> 59 \<and>
     second dt \<le> 59 \<and> microsecond dt \<le> 999999"

text \<open>The alerts one position contributes to a cycle.\<close>

definition position_alerts ::
  "(real \<Rightarrow> real) \<Rightarrow> (pystr \<Rightarrow> real option) \<Rightarrow> position \<Rightarrow> alert list" where
  "position_alerts rnd price p =
     (case price (ticker_of (symbol p)) of
        None \<Rightarrow> []
      | Some current \<Rightarrow>
          classify (symbol p) (entry_price p) current
            (rnd (rnd (rnd (current - entry_price p) / entry_price p) * 100)))"

section \<open>The pattern read from left to right\<close>

text \<open>
  No character class of the pattern overlaps the one that follows it, so the
  backtracking search has at most one match at each start position, the one a single
  scan from left to right finds. \<open>scan_amount_percent\<close> is that scan; it is proved equal
  to the matcher below and is what the proofs compute with.
\<close>

definition rejects :: "regex \<Rightarrow> (nat \<Rightarrow> bool) \<Rightarrow> bool" where
  "rejects r p \<longleftrightarrow> (\<forall>c t. p c \<longrightarrow> matches r (c # t) = [])"

definition opt_rests :: "(nat \<Rightarrow> nat option) \<Rightarrow> pystr \<Rightarrow> pystr list" where
  "opt_rests nd s1 =
     (case s1 of [] \<Rightarrow> [] | c # cs \<Rightarrow> if c = dot then plus1 (is_digit nd) cs else []) @ [s1]"

definition close_percent :: "pystr \<Rightarrow> pystr \<Rightarrow> (pystr list \<times> pystr) list" where
  "close_percent s s2 =
     (case s2 of
        [] \<Rightarrow> []
      | c # s3 \<Rightarrow> if c = percent_sign then [([take (length s - length s2) s], s3)] else [])"

definition scan_percent :: "(nat \<Rightarrow> nat option) \<Rightarrow> pystr \<Rightarrow> (pystr \<times> pystr) option" where
  "scan_percent nd s =
     (let ip = takeWhile (is_digit nd) s; r = dropWhile (is_digit nd) s
      in if ip = [] then None
         else case r of
                [] \<Rightarrow> None
              | c # r1 \<Rightarrow>
                  if c = percent_sign then Some (ip, r1)
                  else if c = dot then
                    (let fp = takeWhile (is_digit nd) r1; r2 = dropWhile (is_digit nd) r1
                     in if fp = [] then None
                        else case r2 of
                               [] \<Rightarrow> None
                             | c2 # r3 \<Rightarrow>
                                 if c2 = percent_sign then Some (ip @ dot # fp, r3) else None)
                  else None)"

definition scan_amount_percent ::
  "(nat \<Rightarrow> nat option) \<Rightarrow> pystr \<Rightarrow> (pystr list \<times> pystr) option" where
  "scan_amount_percent nd s =
     (case s of
        [] \<Rightarrow> None
      | c # s1 \<Rightarrow>
          if c \<noteq> rupee then None
          else
            (let s2 = dropWhile is_space s1;
                 g1 = takeWhile (\<lambda>c. is_digit nd c \<or> c = comma) s2;
                 s3 = dropWhile is_space (dropWhile (\<lambda>c. is_digit nd c \<or> c = comma) s2)
             in if g1 = [] then None
                else case s3 of
                       [] \<Rightarrow> None
                     | a # s4 \<Rightarrow>
                         if a \<noteq> at_sign then None
                         else case scan_percent nd (dropWhile is_space s4) of
                                None \<Rightarrow> None
                              | Some (g2, r) \<Rightarrow> Some ([g1, g2], r)))"

chapter \<open>Proofs\<close>

section \<open>The backtracking matcher on the request pattern\<close>

lemma star_cont:
  assumes "\<And>c t. p c \<Longrightarrow> f (c # t) = []"
  shows "concat (map f (star p s)) = f (dropWhile p s)"
  using assms by (induction s) auto

lemma plus1_cont:
  assumes "\<And>c t. p c \<Longrightarrow> f (c # t) = []"
  shows "concat (map f (plus1 p s)) = (if takeWhile p s = [] then [] else f (dropWhile p s))"
proof (cases s)
  case Nil
  then show ?thesis by simp
next
  case (Cons c cs)
  then show ?thesis using star_cont [of p f cs, OF assms] by simp
qed

lemma cat_chr:
  "matches (Cat (Chr q) r) s = (case s of [] \<Rightarrow> [] | c # cs \<Rightarrow> if q c then matches r cs else [])"
  by (cases s) auto

lemma cat_star:
  assumes "rejects r p"
  shows "matches (Cat (Star p) r) s = matches r (dropWhile p s)"
proof -
  have "matches (Cat (Star p) r) s = concat (map (matches r) (star p s))"
    by (simp add: o_def case_prod_unfold)
  also have "\<dots> = matches r (dropWhile p s)"
    using assms by (intro star_cont) (simp add: rejects_def)
  finally show ?thesis .
qed

lemma take_takeWhile: "take (length s - length (dropWhile p s)) s = takeWhile p s"
proof -
  have "length s = length (takeWhile p s) + length (dropWhile p s)"
    by (metis length_append takeWhile_dropWhile_id)
  then have "length s - length (dropWhile p s) = length (takeWhile p s)"
    by simp
  then show ?thesis
    using takeWhile_eq_take [of p s] by simp
qed

lemma cat_grp_plus:
  assumes "rejects r p"
  shows "matches (Cat (Grp (Plus p)) r) s =
     (if takeWhile p s = [] then []
      else map (\<lambda>(g, s'). (takeWhile p s # g, s')) (matches r (dropWhile p s)))"
proof -
  let ?f = "\<lambda>s1. map (\<lambda>(g, s'). (take (length s - length s1) s # g, s')) (matches r s1)"
  have "matches (Cat (Grp (Plus p)) r) s = concat (map ?f (plus1 p s))"
    by (simp add: o_def case_prod_unfold)
  also have "\<dots> = (if takeWhile p s = [] then [] else ?f (dropWhile p s))"
    using assms by (intro plus1_cont) (simp add: rejects_def)
  finally show ?thesis by (simp add: take_takeWhile case_prod_unfold)
qed

lemma rejects_chr: "(\<And>c. p c \<Longrightarrow> \<not> q c) \<Longrightarrow> rejects (Cat (Chr q) r) p"
  by (simp add: rejects_def)

lemma rejects_star:
  "(\<And>c. p c \<Longrightarrow> \<not> q c) \<Longrightarrow> rejects r p \<Longrightarrow> rejects (Cat (Star q) r) p"
  by (simp add: rejects_def)

lemma rejects_grp_plus: "(\<And>c. p c \<Longrightarrow> \<not> q c) \<Longrightarrow> rejects (Cat (Grp (Plus q)) r) p"
  by (simp add: rejects_def)

lemma not_digit_dot: "\<not> is_digit nd dot" "\<not> is_digit nd percent_sign" "\<not> is_digit nd at_sign" "\<not> is_digit nd comma"
  by (simp_all add: is_digit_def digit_value_def dot_def percent_sign_def at_sign_def comma_def)

lemma digit_not_space: "is_digit nd c \<Longrightarrow> \<not> is_space c"
  by (auto simp: is_digit_def digit_value_def is_space_def split: if_splits)

lemma matches_opt_dot:
  "matches (Opt (Cat (Chr (\<lambda>c. c = dot)) (Plus (is_digit nd)))) s1 = map (Pair []) (opt_rests nd s1)"
  by (cases s1) (simp_all add: opt_rests_def o_def case_prod_unfold)

lemma concat_concat: "concat (concat xss) = concat (map concat xss)"
  by (induction xss) auto

lemma dot_ne_percent: "dot \<noteq> percent_sign"
  by (simp add: dot_def percent_sign_def)

lemma percent_unfold:
  "matches (percent_re nd) s =
     concat (map (\<lambda>s1. concat (map (close_percent s) (opt_rests nd s1))) (plus1 (is_digit nd) s))"
proof -
  have inner: "map (\<lambda>p. (take (length s - length s2) s # fst p, snd p))
        (case s2 of [] \<Rightarrow> [] | c # cs \<Rightarrow> if c = percent_sign then [([], cs)] else [])
      = close_percent s s2" for s2
    by (cases s2) (simp_all add: close_percent_def)
  show ?thesis
    unfolding percent_re_def
    by (simp add: matches_opt_dot o_def case_prod_unfold map_concat inner concat_concat
          del: matches.simps(4))
qed

lemma close_percent_digit: "is_digit nd c \<Longrightarrow> close_percent s (c # t) = []"
  using not_digit_dot(2) [of nd] by (auto simp: close_percent_def)

lemma opt_rests_digit: "is_digit nd c \<Longrightarrow> opt_rests nd (c # t) = [c # t]"
  using not_digit_dot(1) [of nd] by (auto simp: opt_rests_def)

lemma take_prefix: "take (length (a @ b) - length b) (a @ b) = a"
  by simp

lemma percent_closed:
  "matches (percent_re nd) s = (case scan_percent nd s of None \<Rightarrow> [] | Some (g, r) \<Rightarrow> [([g], r)])"
proof -
  let ?d = "is_digit nd"
  let ?F = "\<lambda>s1. concat (map (close_percent s) (opt_rests nd s1))"
  define ip where "ip = takeWhile ?d s"
  define r where "r = dropWhile ?d s"
  have s_eq: "s = ip @ r"
    by (simp add: ip_def r_def)
  have "concat (map ?F (plus1 ?d s)) = (if takeWhile ?d s = [] then [] else ?F (dropWhile ?d s))"
    by (intro plus1_cont) (simp add: opt_rests_digit close_percent_digit)
  then have 1: "matches (percent_re nd) s = (if ip = [] then [] else ?F r)"
    by (simp only: percent_unfold ip_def r_def)
  have 2: "concat (map (close_percent s) (plus1 ?d r1)) =
     (if takeWhile ?d r1 = [] then [] else close_percent s (dropWhile ?d r1))" for r1
    by (intro plus1_cont) (simp add: close_percent_digit)
  have 3: "scan_percent nd s =
     (if ip = [] then None
         else case r of
                [] \<Rightarrow> None
              | c # r1 \<Rightarrow>
                  if c = percent_sign then Some (ip, r1)
                  else if c = dot then
                    (let fp = takeWhile (is_digit nd) r1; r2 = dropWhile (is_digit nd) r1
                     in if fp = [] then None
                        else case r2 of
                               [] \<Rightarrow> None
                             | c2 # r3 \<Rightarrow>
                                 if c2 = percent_sign then Some (ip @ dot # fp, r3) else None)
                  else None)"
    by (simp only: scan_percent_def ip_def r_def Let_def)
  show ?thesis
  proof (cases "ip = []")
    case True
    then show ?thesis by (simp add: 1 3)
  next
    case False
    show ?thesis
    proof (cases r)
      case Nil
      then show ?thesis using False by (simp add: 1 3 opt_rests_def close_percent_def)
    next
      case (Cons c r1)
      show ?thesis
      proof (cases "c = dot")
        case cdot: True
        define fp where "fp = takeWhile ?d r1"
        define r2 where "r2 = dropWhile ?d r1"
        have r1_eq: "r1 = fp @ r2" by (simp add: fp_def r2_def)
        have F: "?F r = (if fp = [] then [] else close_percent s r2)"
          using cdot Cons 2 [of r1]
          by (simp add: opt_rests_def fp_def r2_def close_percent_def dot_def percent_sign_def)
        have cap: "take (length s - length r2) s = ip @ dot # fp"
          using take_prefix [of "ip @ dot # fp" r2] by (simp add: s_eq Cons cdot r1_eq)
        have cp: "close_percent s r2 =
            (case r2 of [] \<Rightarrow> []
             | c2 # r3 \<Rightarrow> if c2 = percent_sign then [([ip @ dot # fp], r3)] else [])"
          unfolding close_percent_def cap ..
        have m: "matches (percent_re nd) s = (if fp = [] then [] else close_percent s r2)"
          using False F by (simp add: 1)
        have sc: "scan_percent nd s =
            (if fp = [] then None
             else case r2 of [] \<Rightarrow> None
                  | c2 # r3 \<Rightarrow> if c2 = percent_sign then Some (ip @ dot # fp, r3) else None)"
          using False Cons cdot
          by (simp add: 3 Let_def fp_def [symmetric] r2_def [symmetric] dot_ne_percent
                split: list.splits)
        show ?thesis
          by (simp add: m sc cp split: list.splits)
      next
        case ndot: False
        have cap: "take (length s - length r) s = ip"
          using take_prefix [of ip r] by (simp add: s_eq)
        have cp: "close_percent s r =
            (case r of [] \<Rightarrow> []
             | c2 # r3 \<Rightarrow> if c2 = percent_sign then [([ip], r3)] else [])"
          unfolding close_percent_def cap ..
        have "opt_rests nd r = [r]"
          using ndot Cons by (simp add: opt_rests_def)
        then have m: "matches (percent_re nd) s = close_percent s r"
          using False by (simp add: 1)
        have sc: "scan_percent nd s =
            (case r of [] \<Rightarrow> None
             | c2 # r3 \<Rightarrow> if c2 = percent_sign then Some (ip, r3) else None)"
          using False ndot Cons by (simp add: 3)
        show ?thesis
          by (simp add: m sc cp split: list.splits)
      qed
    qed
  qed
qed


lemma space_facts:
  "is_space c \<Longrightarrow> \<not> is_digit nd c" "is_space c \<Longrightarrow> c \<noteq> comma" "is_space c \<Longrightarrow> c \<noteq> at_sign"
  by (auto simp: is_digit_def digit_value_def is_space_def comma_def at_sign_def split: if_splits)

lemma rejects_percent_space: "rejects (percent_re nd) is_space"
  by (simp add: rejects_def percent_closed scan_percent_def space_facts)

lemma amount_percent_closed:
  "matches (amount_percent nd) s = (case scan_amount_percent nd s of None \<Rightarrow> [] | Some m \<Rightarrow> [m])"
proof -
  let ?dc = "\<lambda>c. is_digit nd c \<or> c = comma"
  let ?r6 = "percent_re nd"
  let ?r5 = "Cat (Star is_space) ?r6"
  let ?r4 = "Cat (Chr (\<lambda>c. c = at_sign)) ?r5"
  let ?r3 = "Cat (Star is_space) ?r4"
  let ?r2 = "Cat (Grp (Plus ?dc)) ?r3"
  have r4_dc: "rejects ?r4 ?dc"
    using not_digit_dot(3) [of nd] by (intro rejects_chr) (auto simp: comma_def at_sign_def)
  have r3_dc: "rejects ?r3 ?dc"
    using r4_dc space_facts(1) [of _ nd] space_facts(2) by (intro rejects_star) auto
  have r4_sp: "rejects ?r4 is_space"
    by (intro rejects_chr) (auto simp: space_facts)
  have r2_sp: "rejects ?r2 is_space"
    by (intro rejects_grp_plus) (auto simp: space_facts)
  have m5: "matches ?r5 t = matches ?r6 (dropWhile is_space t)" for t
    by (rule cat_star [OF rejects_percent_space])
  have m3: "matches ?r3 t = matches ?r4 (dropWhile is_space t)" for t
    by (rule cat_star [OF r4_sp])
  have m2: "matches ?r2 t =
     (if takeWhile ?dc t = [] then []
      else map (\<lambda>(g, s'). (takeWhile ?dc t # g, s')) (matches ?r3 (dropWhile ?dc t)))" for t
    by (rule cat_grp_plus [OF r3_dc])
  have m1: "matches (Cat (Star is_space) ?r2) t = matches ?r2 (dropWhile is_space t)" for t
    by (rule cat_star [OF r2_sp])
  show ?thesis
  proof (cases s)
    case Nil
    then show ?thesis by (simp add: amount_percent_def scan_amount_percent_def)
  next
    case (Cons c s1)
    define s2 where "s2 = dropWhile is_space s1"
    define g1 where "g1 = takeWhile ?dc s2"
    define s3 where "s3 = dropWhile is_space (dropWhile ?dc s2)"
    have sc: "scan_amount_percent nd s =
        (if c \<noteq> rupee then None
         else if g1 = [] then None
         else case s3 of
                [] \<Rightarrow> None
              | a # s4 \<Rightarrow>
                  if a \<noteq> at_sign then None
                  else case scan_percent nd (dropWhile is_space s4) of
                         None \<Rightarrow> None
                       | Some (g2, r) \<Rightarrow> Some ([g1, g2], r))"
      unfolding scan_amount_percent_def Cons s2_def g1_def s3_def Let_def by simp
    have m4: "matches ?r4 s3 =
        (case s3 of
           [] \<Rightarrow> []
         | a # s4 \<Rightarrow>
             if a = at_sign
             then (case scan_percent nd (dropWhile is_space s4) of
                     None \<Rightarrow> [] | Some (g, r) \<Rightarrow> [([g], r)])
             else [])"
      unfolding cat_chr m5 percent_closed ..
    have "matches (amount_percent nd) s =
        (if c = rupee then matches ?r2 s2 else [])"
      unfolding amount_percent_def cat_chr m1 Cons s2_def by simp
    also have "matches ?r2 s2 =
        (if g1 = [] then [] else map (\<lambda>(g, s'). (g1 # g, s')) (matches ?r4 s3))"
      unfolding m2 m3 g1_def s3_def ..
    finally have m: "matches (amount_percent nd) s =
        (if c = rupee
         then if g1 = [] then [] else map (\<lambda>(g, s'). (g1 # g, s')) (matches ?r4 s3)
         else [])" .
    show ?thesis
      unfolding m m4 sc by (simp split: list.splits option.splits)
  qed
qed

section \<open>Scanning a well-formed request\<close>

lemma re_match_amount_percent:
  "re_match (amount_percent nd) s = scan_amount_percent nd s"
  by (simp add: re_match_def amount_percent_closed split: option.splits)

lemma is_digit_value: "is_digit nd c \<Longrightarrow> digit_value nd c = Some (the_digit nd c)"
  by (auto simp: is_digit_def the_digit_def)

lemma decimal_digits:
  "list_all (is_digit nd) ds \<Longrightarrow>
     decimal nd acc ds = Some (acc * 10 ^ length ds + numeral_value nd ds)"
  by (induction ds arbitrary: acc) (simp_all add: is_digit_value algebra_simps)

lemma span_stop:
  "list_all p xs \<Longrightarrow> \<not> p y \<Longrightarrow>
     takeWhile p (xs @ y # ys) = xs \<and> dropWhile p (xs @ y # ys) = y # ys"
  by (induction xs) auto

lemma span_end: "list_all p xs \<Longrightarrow> takeWhile p xs = xs \<and> dropWhile p xs = []"
  by (induction xs) auto

lemma scan_percent_form:
  assumes "is_percent nd ip fr"
  shows "scan_percent nd (ip @ fr @ percent_sign # post) = Some (ip @ fr, post)"
proof -
  from assms have ip: "ip \<noteq> []" "list_all (is_digit nd) ip"
    by (auto simp: is_percent_def)
  from assms consider "fr = []"
    | fp where "fr = dot # fp" "fp \<noteq> []" "list_all (is_digit nd) fp"
    by (auto simp: is_percent_def)
  then show ?thesis
  proof cases
    case 1
    have "takeWhile (is_digit nd) (ip @ percent_sign # post) = ip"
      "dropWhile (is_digit nd) (ip @ percent_sign # post) = percent_sign # post"
      using span_stop [OF ip(2) not_digit_dot(2)] by auto
    then show ?thesis using 1 ip by (simp add: scan_percent_def)
  next
    case 2
    have a: "takeWhile (is_digit nd) (ip @ dot # fp @ percent_sign # post) = ip"
      "dropWhile (is_digit nd) (ip @ dot # fp @ percent_sign # post) = dot # fp @ percent_sign # post"
      using span_stop [OF ip(2) not_digit_dot(1)] by auto
    have b: "takeWhile (is_digit nd) (fp @ percent_sign # post) = fp"
      "dropWhile (is_digit nd) (fp @ percent_sign # post) = percent_sign # post"
      using span_stop [OF 2(3) not_digit_dot(2)] by auto
    show ?thesis using 2 ip a b by (simp add: scan_percent_def dot_ne_percent)
  qed
qed

lemma blank_stop:
  "blank ws \<Longrightarrow> \<not> is_space y \<Longrightarrow> dropWhile is_space (ws @ y # ys) = y # ys"
  using span_stop [of is_space ws y ys] by (simp add: blank_def)

lemma not_space_at: "\<not> is_space at_sign" "\<not> is_space rupee" "\<not> is_space percent_sign"
  by (simp_all add: is_space_def at_sign_def rupee_def percent_sign_def)

lemma amount_run:
  assumes "is_amount nd amt" "blank ws2"
  shows "takeWhile (\<lambda>c. is_digit nd c \<or> c = comma) (amt @ ws2 @ at_sign # rest) = amt"
    and "dropWhile (\<lambda>c. is_digit nd c \<or> c = comma) (amt @ ws2 @ at_sign # rest)
           = ws2 @ at_sign # rest"
proof -
  let ?dc = "\<lambda>c. is_digit nd c \<or> c = comma"
  have amt: "list_all ?dc amt" using assms(1) by (simp add: is_amount_def)
  have "takeWhile ?dc (amt @ ws2 @ at_sign # rest) = amt \<and>
        dropWhile ?dc (amt @ ws2 @ at_sign # rest) = ws2 @ at_sign # rest"
  proof (cases ws2)
    case Nil
    have "\<not> ?dc at_sign"
      using not_digit_dot(3) [of nd] by (simp add: at_sign_def comma_def)
    then show ?thesis using span_stop [OF amt, of at_sign rest] Nil by simp
  next
    case (Cons w ws)
    then have "is_space w" using assms(2) by (simp add: blank_def)
    then have "\<not> ?dc w" using space_facts(1) [of w nd] space_facts(2) [of w] by auto
    then show ?thesis using span_stop [OF amt, of w "ws @ at_sign # rest"] Cons by simp
  qed
  then show "takeWhile ?dc (amt @ ws2 @ at_sign # rest) = amt"
    and "dropWhile ?dc (amt @ ws2 @ at_sign # rest) = ws2 @ at_sign # rest"
    by simp_all
qed

lemma scan_request:
  assumes "blank ws1" "blank ws2" "blank ws3" "is_amount nd amt" "is_percent nd ip fr"
  shows "scan_amount_percent nd
           (rupee # ws1 @ amt @ ws2 @ at_sign # ws3 @ ip @ fr @ percent_sign # post)
         = Some ([amt, ip @ fr], post)"
proof -
  let ?dc = "\<lambda>c. is_digit nd c \<or> c = comma"
  let ?tail = "ws3 @ ip @ fr @ percent_sign # post"
  obtain a amt' where amt: "amt = a # amt'" "?dc a"
    using assms(4) by (cases amt) (auto simp: is_amount_def)
  obtain i ip' where ip: "ip = i # ip'" "is_digit nd i"
    using assms(5) by (cases ip) (auto simp: is_percent_def)
  have "\<not> is_space a"
    using amt(2) space_facts(1) [of a nd] space_facts(2) [of a] by auto
  then have 1: "dropWhile is_space (ws1 @ amt @ ws2 @ at_sign # ?tail) = amt @ ws2 @ at_sign # ?tail"
    using blank_stop [OF assms(1), of a "amt' @ ws2 @ at_sign # ?tail"] amt(1) by simp
  note 2 = amount_run [OF assms(4) assms(2), of ?tail]
  have 3: "dropWhile is_space (ws2 @ at_sign # ?tail) = at_sign # ?tail"
    by (rule blank_stop [OF assms(2) not_space_at(1)])
  have "\<not> is_space i" using ip(2) digit_not_space by blast
  then have 4: "dropWhile is_space ?tail = ip @ fr @ percent_sign # post"
    using blank_stop [OF assms(3), of i "ip' @ fr @ percent_sign # post"] ip(1) by simp
  have 5: "amt \<noteq> []" using amt by simp
  show ?thesis
    unfolding scan_amount_percent_def
    by (simp add: 1 2 3 4 5 scan_percent_form [OF assms(5)] del: append_assoc)
qed

lemma filter_commas_digits:
  assumes "list_all (\<lambda>c. is_digit nd c \<or> c = comma) amt"
  shows "list_all (is_digit nd) (filter (\<lambda>c. c \<noteq> comma) amt)"
  using assms by (induction amt) auto

lemma py_int_amount:
  assumes "is_amount nd amt" "\<exists>c \<in> set amt. is_digit nd c"
    and "length (filter (\<lambda>c. c \<noteq> comma) amt) \<le> int_max_str_digits"
  shows "py_int nd (filter (\<lambda>c. c \<noteq> comma) amt)
           = Inr (int (numeral_value nd (filter (\<lambda>c. c \<noteq> comma) amt)))"
proof -
  let ?ds = "filter (\<lambda>c. c \<noteq> comma) amt"
  have "list_all (is_digit nd) ?ds"
    using assms(1) by (simp add: is_amount_def filter_commas_digits)
  then have d: "decimal nd 0 ?ds = Some (numeral_value nd ?ds)"
    using decimal_digits [of nd ?ds 0] by simp
  obtain c where "c \<in> set amt" "is_digit nd c" using assms(2) by blast
  then have "c \<in> set ?ds" using not_digit_dot(4) [of nd] by auto
  then have "?ds \<noteq> []" by (metis empty_iff empty_set)
  then show ?thesis using assms(3) by (simp add: py_int_def d)
qed

lemma py_int_too_long:
  "int_max_str_digits < length s \<Longrightarrow> py_int nd s = Inl ValueError"
  by (auto simp: py_int_def split: option.splits)

lemma py_float_percent:
  assumes "is_percent nd ip fr"
  shows "py_float nd rnd (ip @ fr)
           = Inr (if float_overflow \<le> percent_value nd ip fr then Infinity
                  else Finite (rnd (percent_value nd ip fr)))"
proof -
  from assms have ip: "ip \<noteq> []" "list_all (is_digit nd) ip"
    by (auto simp: is_percent_def)
  have nodot: "list_all (\<lambda>c. c \<noteq> dot) ip"
    using ip(2) not_digit_dot(1) [of nd] by (induction ip) auto
  have dip: "decimal nd 0 ip = Some (numeral_value nd ip)"
    using decimal_digits [OF ip(2), of 0] by simp
  from assms consider "fr = []"
    | fp where "fr = dot # fp" "fp \<noteq> []" "list_all (is_digit nd) fp"
    by (auto simp: is_percent_def)
  then show ?thesis
  proof cases
    case 1
    have tw: "takeWhile (\<lambda>c. c \<noteq> dot) ip = ip" using span_end [OF nodot] by simp
    show ?thesis using 1 ip by (simp add: py_float_def percent_value_def tw dip)
  next
    case 2
    have tw: "takeWhile (\<lambda>c. c \<noteq> dot) (ip @ dot # fp) = ip"
      using span_stop [OF nodot, of dot fp] by simp
    have dfp: "decimal nd 0 fp = Some (numeral_value nd fp)"
      using decimal_digits [OF 2(3), of 0] by simp
    show ?thesis using 2 ip by (simp add: py_float_def percent_value_def tw dip dfp)
  qed
qed

lemma re_search_prefix:
  "re_match r s \<noteq> None \<Longrightarrow> re_search r (pre @ s) \<noteq> None"
proof (induction pre)
  case Nil
  then show ?case by (cases s) (auto split: option.splits)
next
  case (Cons c pre)
  then show ?case by (auto split: option.splits)
qed

lemma re_search_Some:
  "re_search r t = Some m \<Longrightarrow> \<exists>pre s. t = pre @ s \<and> re_match r s = Some m"
proof (induction t)
  case Nil
  then show ?case by simp
next
  case (Cons c t)
  show ?case
  proof (cases "re_match r (c # t)")
    case None
    then obtain pre s where "t = pre @ s" "re_match r s = Some m"
      using Cons by auto
    then have "c # t = (c # pre) @ s \<and> re_match r s = Some m" by simp
    then show ?thesis by blast
  next
    case (Some m')
    then have "c # t = [] @ (c # t) \<and> re_match r (c # t) = Some m"
      using Cons.prems by simp
    then show ?thesis by blast
  qed
qed

lemma re_search_first:
  "re_match r s = Some m \<Longrightarrow> re_search r s = Some m"
  by (cases s) auto

section \<open>The search finds exactly the requests\<close>

lemma list_all_takeWhile: "list_all p (takeWhile p xs)"
  by (induction xs) auto

lemma scan_percent_sound:
  assumes "scan_percent nd s = Some (g, r)"
  shows "\<exists>ip fr. s = ip @ fr @ percent_sign # r \<and> is_percent nd ip fr \<and> g = ip @ fr"
proof -
  let ?d = "is_digit nd"
  define ip where "ip = takeWhile ?d s"
  define rest where "rest = dropWhile ?d s"
  have s_eq: "s = ip @ rest" by (simp add: ip_def rest_def)
  have ipd: "list_all ?d ip" by (simp add: ip_def list_all_takeWhile)
  have sc: "(if ip = [] then None
         else case rest of
                [] \<Rightarrow> None
              | c # r1 \<Rightarrow>
                  if c = percent_sign then Some (ip, r1)
                  else if c = dot then
                    (let fp = takeWhile ?d r1; r2 = dropWhile ?d r1
                     in if fp = [] then None
                        else case r2 of
                               [] \<Rightarrow> None
                             | c2 # r3 \<Rightarrow>
                                 if c2 = percent_sign then Some (ip @ dot # fp, r3) else None)
                  else None) = Some (g, r)"
    using assms by (simp only: scan_percent_def ip_def rest_def Let_def)
  then have ne: "ip \<noteq> []" by (auto split: if_splits)
  from sc ne obtain c r1 where rest: "rest = c # r1" by (cases rest) auto
  show ?thesis
  proof (cases "c = percent_sign")
    case True
    then have "g = ip" "r = r1" using sc ne rest by auto
    then have "s = ip @ [] @ percent_sign # r \<and> is_percent nd ip [] \<and> g = ip @ []"
      using s_eq rest True ne ipd by (simp add: is_percent_def)
    then show ?thesis by blast
  next
    case False
    define fp where "fp = takeWhile ?d r1"
    define r2 where "r2 = dropWhile ?d r1"
    have r1_eq: "r1 = fp @ r2" by (simp add: fp_def r2_def)
    have fpd: "list_all ?d fp" by (simp add: fp_def list_all_takeWhile)
    have sc2: "c = dot \<and> fp \<noteq> [] \<and>
        (case r2 of [] \<Rightarrow> None
         | c2 # r3 \<Rightarrow> if c2 = percent_sign then Some (ip @ dot # fp, r3) else None) = Some (g, r)"
      using sc ne rest False unfolding fp_def r2_def
      by (auto simp: Let_def split: if_splits)
    then obtain c2 r3 where r2: "r2 = c2 # r3" by (cases r2) auto
    have fin: "c2 = percent_sign" "g = ip @ dot # fp" "r = r3"
      using sc2 r2 by (auto split: if_splits)
    have "s = ip @ (dot # fp) @ percent_sign # r \<and> is_percent nd ip (dot # fp) \<and> g = ip @ dot # fp"
      using s_eq rest r1_eq r2 fin sc2 ne ipd fpd by (simp add: is_percent_def)
    then show ?thesis by blast
  qed
qed

lemma scan_amount_percent_sound:
  assumes "scan_amount_percent nd s = Some (gs, r)"
  shows "\<exists>ws1 amt ws2 ws3 ip fr.
           s = rupee # ws1 @ amt @ ws2 @ at_sign # ws3 @ ip @ fr @ percent_sign # r \<and>
           blank ws1 \<and> blank ws2 \<and> blank ws3 \<and> is_amount nd amt \<and> is_percent nd ip fr \<and>
           gs = [amt, ip @ fr]"
proof -
  let ?dc = "\<lambda>c. is_digit nd c \<or> c = comma"
  from assms obtain c s1 where s: "s = c # s1"
    by (cases s) (auto simp: scan_amount_percent_def)
  define ws1 where "ws1 = takeWhile is_space s1"
  define s2 where "s2 = dropWhile is_space s1"
  define amt where "amt = takeWhile ?dc s2"
  define s2' where "s2' = dropWhile ?dc s2"
  define ws2 where "ws2 = takeWhile is_space s2'"
  define s3 where "s3 = dropWhile is_space s2'"
  have eqs: "s1 = ws1 @ s2" "s2 = amt @ s2'" "s2' = ws2 @ s3"
    by (simp_all add: ws1_def s2_def amt_def s2'_def ws2_def s3_def)
  have bl: "blank ws1" "blank ws2" "list_all ?dc amt"
    by (simp_all add: blank_def ws1_def ws2_def amt_def list_all_takeWhile)
  have sc: "(if c \<noteq> rupee then None
         else if amt = [] then None
         else case s3 of
                [] \<Rightarrow> None
              | a # s4 \<Rightarrow>
                  if a \<noteq> at_sign then None
                  else case scan_percent nd (dropWhile is_space s4) of
                         None \<Rightarrow> None
                       | Some (g2, r) \<Rightarrow> Some ([amt, g2], r)) = Some (gs, r)"
    using assms
    unfolding scan_amount_percent_def s s3_def s2'_def amt_def s2_def Let_def by simp
  then have c: "c = rupee" and amt_ne: "amt \<noteq> []" by (auto split: if_splits)
  from sc c amt_ne obtain a s4 where s3: "s3 = a # s4" by (cases s3) auto
  define ws3 where "ws3 = takeWhile is_space s4"
  define s5 where "s5 = dropWhile is_space s4"
  have s4_eq: "s4 = ws3 @ s5" by (simp add: ws3_def s5_def)
  have bl3: "blank ws3" by (simp add: blank_def ws3_def list_all_takeWhile)
  have sc2: "a = at_sign \<and>
      (case scan_percent nd s5 of None \<Rightarrow> None | Some (g2, r) \<Rightarrow> Some ([amt, g2], r)) = Some (gs, r)"
    using sc c amt_ne s3 by (auto simp: s5_def split: if_splits)
  then obtain g2 where sp: "scan_percent nd s5 = Some (g2, r)" and gs: "gs = [amt, g2]"
    by (auto split: option.splits)
  from scan_percent_sound [OF sp] obtain ip fr
    where pf: "s5 = ip @ fr @ percent_sign # r" "is_percent nd ip fr" "g2 = ip @ fr"
    by blast
  have "s = rupee # ws1 @ amt @ ws2 @ at_sign # ws3 @ ip @ fr @ percent_sign # r"
    using s c eqs s3 sc2 s4_eq pf(1) by simp
  moreover have "is_amount nd amt" using bl(3) amt_ne by (simp add: is_amount_def)
  ultimately show ?thesis using bl bl3 pf gs by blast
qed

lemma search_finds_request:
  "re_search (amount_percent nd) t \<noteq> None \<longleftrightarrow> contains_request nd t"
proof
  assume "re_search (amount_percent nd) t \<noteq> None"
  then obtain gs r where "re_search (amount_percent nd) t = Some (gs, r)" by auto
  then obtain pre s where t: "t = pre @ s" and "re_match (amount_percent nd) s = Some (gs, r)"
    using re_search_Some by blast
  then have "scan_amount_percent nd s = Some (gs, r)"
    by (simp add: re_match_amount_percent)
  from scan_amount_percent_sound [OF this] obtain ws1 amt ws2 ws3 ip fr where
    f: "s = rupee # ws1 @ amt @ ws2 @ at_sign # ws3 @ ip @ fr @ percent_sign # r"
      "blank ws1" "blank ws2" "blank ws3" "is_amount nd amt" "is_percent nd ip fr"
    by blast
  let ?m = "rupee # ws1 @ amt @ ws2 @ at_sign # ws3 @ ip @ fr @ [percent_sign]"
  have "is_request nd ?m" using f(2-6) unfolding is_request_def by blast
  moreover have "t = pre @ ?m @ r" using t f(1) by simp
  ultimately show "contains_request nd t" unfolding contains_request_def by blast
next
  assume "contains_request nd t"
  then obtain pre m post where t: "t = pre @ m @ post" and "is_request nd m"
    unfolding contains_request_def by blast
  then obtain ws1 amt ws2 ws3 ip fr where
    f: "m = rupee # ws1 @ amt @ ws2 @ at_sign # ws3 @ ip @ fr @ [percent_sign]"
      "blank ws1" "blank ws2" "blank ws3" "is_amount nd amt" "is_percent nd ip fr"
    unfolding is_request_def by blast
  have "scan_amount_percent nd (m @ post) = Some ([amt, ip @ fr], post)"
    using scan_request [OF f(2-6), of post] f(1) by simp
  then have "re_match (amount_percent nd) (m @ post) \<noteq> None"
    by (simp add: re_match_amount_percent)
  then show "re_search (amount_percent nd) t \<noteq> None"
    unfolding t by (rule re_search_prefix)
qed

lemma strip_infix: "\<exists>a b. t = a @ strip t @ b"
proof -
  let ?u = "dropWhile is_space t"
  have 1: "t = takeWhile is_space t @ ?u" by simp
  have "rev (takeWhile is_space (rev ?u) @ dropWhile is_space (rev ?u)) = ?u"
    by (simp only: takeWhile_dropWhile_id rev_rev_ident)
  then have "rev (dropWhile is_space (rev ?u)) @ rev (takeWhile is_space (rev ?u)) = ?u"
    by (simp only: rev_append)
  then have 2: "?u = strip t @ rev (takeWhile is_space (rev ?u))"
    by (simp only: strip_def)
  have "t = takeWhile is_space t @ strip t @ rev (takeWhile is_space (rev ?u))"
    using 1 2 by metis
  then show ?thesis by blast
qed

lemma contains_request_strip: "contains_request nd (strip t) \<Longrightarrow> contains_request nd t"
proof -
  assume "contains_request nd (strip t)"
  then obtain pre m post where s: "strip t = pre @ m @ post" and m: "is_request nd m"
    unfolding contains_request_def by blast
  obtain a b where "t = a @ strip t @ b" using strip_infix by blast
  then have "t = (a @ pre) @ m @ (post @ b)" using s by simp
  then show ?thesis using m unfolding contains_request_def by blast
qed

lemma parse_input_no_request:
  assumes "\<not> contains_request nd t"
  shows "parse_input nd rnd t = Inr None"
proof -
  have "re_search (amount_percent nd) t = None"
    using assms search_finds_request [of nd t] by blast
  then show ?thesis by (simp add: parse_input_def)
qed

lemma contains_request_rupee: "contains_request nd t \<Longrightarrow> rupee \<in> set t"
  by (auto simp: contains_request_def is_request_def)

section \<open>Parsing\<close>

lemmas char_defs = rupee_def comma_def dot_def at_sign_def percent_sign_def

lemma float_overflow_ge: "2 ^ 64 \<le> float_overflow"
proof -
  have "(2::real) ^ 970 * 2 \<le> 2 ^ 970 * 2 ^ 54" by (intro mult_left_mono) simp_all
  then have "(2::real) ^ 971 \<le> 2 ^ 1024" by (simp add: power_add [symmetric])
  moreover have "(2::real) ^ 64 \<le> 2 ^ 970" by (rule power_increasing) simp_all
  moreover have "(2::real) ^ 971 = 2 ^ 970 + 2 ^ 970" by simp
  ultimately have "(2::real) ^ 64 \<le> 2 ^ 1024 - 2 ^ 970" by linarith
  then show ?thesis
    unfolding float_overflow_def .
qed

lemmas scan_eval =
  parse_input_def re_match_amount_percent scan_amount_percent_def scan_percent_def
  py_int_def py_float_def is_digit_def digit_value_def is_space_def char_defs lit_def Let_def
  int_max_str_digits_def

lemma parse_input_example:
  "parse_input nd rnd (rupee # lit ''20,000 @ 3.5%'') = Inr (Some (20000, Finite (rnd (7 / 2))))"
  using float_overflow_ge by (simp add: scan_eval)

lemma parse_input_form:
  assumes "blank ws1" and "blank ws2" and "blank ws3"
    and "is_amount nd amt" and "\<exists>c \<in> set amt. is_digit nd c"
    and "is_percent nd ip fr"
  shows "parse_input nd rnd (rupee # ws1 @ amt @ ws2 @ at_sign # ws3 @ ip @ fr @ [percent_sign])
           = (if int_max_str_digits < length (filter (\<lambda>c. c \<noteq> comma) amt) then Inl ValueError
              else Inr (Some (int (numeral_value nd (filter (\<lambda>c. c \<noteq> comma) amt)),
                              if float_overflow \<le> percent_value nd ip fr then Infinity
                              else Finite (rnd (percent_value nd ip fr)))))"
proof -
  let ?t = "rupee # ws1 @ amt @ ws2 @ at_sign # ws3 @ ip @ fr @ [percent_sign]"
  let ?ds = "filter (\<lambda>c. c \<noteq> comma) amt"
  have "scan_amount_percent nd ?t = Some ([amt, ip @ fr], [])"
    using scan_request [OF assms(1-4) assms(6), of "[]"] by simp
  then have "re_match (amount_percent nd) ?t = Some ([amt, ip @ fr], [])"
    by (simp add: re_match_amount_percent)
  then have "re_search (amount_percent nd) ?t = Some ([amt, ip @ fr], [])"
    by (rule re_search_first)
  then have p: "parse_input nd rnd ?t =
      (case py_int nd ?ds of
         Inl e \<Rightarrow> Inl e
       | Inr amount \<Rightarrow>
           Inr (Some (amount, if float_overflow \<le> percent_value nd ip fr then Infinity
                              else Finite (rnd (percent_value nd ip fr)))))"
    by (simp add: parse_input_def py_float_percent [OF assms(6)] split: sum.splits)
  show ?thesis
  proof (cases "int_max_str_digits < length ?ds")
    case True
    then show ?thesis by (simp add: p py_int_too_long)
  next
    case False
    then have "length ?ds \<le> int_max_str_digits" by simp
    then show ?thesis
      using False by (simp add: p py_int_amount [OF assms(4,5)])
  qed
qed

lemma numeral_value_zero_run: "numeral_value nd (replicate k 48) = 0"
  by (induction k) (simp_all add: the_digit_def digit_value_def)

text \<open>
  Claim C2, as amended. A message that is exactly a rupee sign, an amount of decimal
  digits and commas with at least one digit, an at sign and a decimal percent followed
  by a percent sign (white space allowed where the pattern allows it) is parsed to the
  number the digits of the amount denote once the commas are removed, and to the double
  the percent rounds to, provided the amount has at most 4300 digits and the percent is
  below the overflow bound of a double. An amount of more digits raises \<open>ValueError\<close>, and
  a percent at or above the bound is returned as infinity. The message of the
  specification gives 20000 and the double of 3.5.
\<close>

theorem parse_input_request:
  assumes "blank ws1" and "blank ws2" and "blank ws3"
    and "is_amount nd amt" and "\<exists>c \<in> set amt. is_digit nd c"
    and "is_percent nd ip fr"
  shows "parse_input nd rnd (rupee # ws1 @ amt @ ws2 @ at_sign # ws3 @ ip @ fr @ [percent_sign])
           = (if int_max_str_digits < length (filter (\<lambda>c. c \<noteq> comma) amt) then Inl ValueError
              else Inr (Some (int (numeral_value nd (filter (\<lambda>c. c \<noteq> comma) amt)),
                              if float_overflow \<le> percent_value nd ip fr then Infinity
                              else Finite (rnd (percent_value nd ip fr))))) \<and>
         (length (filter (\<lambda>c. c \<noteq> comma) amt) \<le> int_max_str_digits \<and>
          percent_value nd ip fr < float_overflow \<longrightarrow>
          parse_input nd rnd (rupee # ws1 @ amt @ ws2 @ at_sign # ws3 @ ip @ fr @ [percent_sign])
            = Inr (Some (int (numeral_value nd (filter (\<lambda>c. c \<noteq> comma) amt)),
                         Finite (rnd (percent_value nd ip fr))))) \<and>
         parse_input nd rnd (rupee # lit ''20,000 @ 3.5%'')
           = Inr (Some (20000, Finite (rnd (7 / 2))))"
  using parse_input_form [OF assms, of rnd] parse_input_example [of nd rnd] by auto

theorem parse_input_request_witness:
  "blank [] \<and> blank [32] \<and> is_amount ascii_digits [49, 44, 50, 53, 48] \<and>
   is_percent ascii_digits [50] [] \<and>
   parse_input ascii_digits (\<lambda>x. x) [8377, 49, 44, 50, 53, 48, 32, 64, 32, 50, 37]
     = Inr (Some (1250, Finite 2))"
proof -
  have h: "blank []" "blank [32]" "is_amount ascii_digits [49, 44, 50, 53, 48]"
    "\<exists>c \<in> set [49, 44, 50, 53, 48]. is_digit ascii_digits c" "is_percent ascii_digits [50] []"
    by (simp_all add: blank_def is_amount_def is_percent_def is_digit_def digit_value_def
          is_space_def char_defs)
  have r: "length (filter (\<lambda>c. c \<noteq> comma) [49, 44, 50, 53, 48]) \<le> int_max_str_digits \<and>
      percent_value ascii_digits [50] [] < float_overflow"
    using float_overflow_ge
    by (simp add: char_defs int_max_str_digits_def percent_value_def the_digit_def
          digit_value_def)
  have "parse_input ascii_digits (\<lambda>x. x) [8377, 49, 44, 50, 53, 48, 32, 64, 32, 50, 37]
     = Inr (Some (1250, Finite 2))"
    using parse_input_request [OF h(1) h(2) h(2) h(3) h(4) h(5), of "\<lambda>x. x"] r
    by (simp add: char_defs percent_value_def the_digit_def digit_value_def)
  then show ?thesis using h by blast
qed

text \<open>
  Claim C2 as stated fails on two kinds of messages of the pattern. A percent of 2
  followed by 308 zeros is beyond every double, and \<open>float\<close> returns infinity instead of
  the number; an amount of 4301 digits is beyond the limit of \<open>int\<close>, which raises
  \<open>ValueError\<close>.
\<close>

theorem parse_input_out_of_range:
  "parse_input ascii_digits (\<lambda>x. x)
     (rupee # [] @ [53] @ [32] @ at_sign # [32] @ (50 # replicate 308 48) @ [] @ [percent_sign])
     = Inr (Some (5, Infinity)) \<and>
   parse_input ascii_digits (\<lambda>x. x)
     (rupee # [] @ replicate 4301 49 @ [32] @ at_sign # [32] @ [50] @ [] @ [percent_sign])
     = Inl ValueError"
proof -
  have b: "blank []" "blank [32]"
    by (simp_all add: blank_def is_space_def)
  have a1: "is_amount ascii_digits [53]" "\<exists>c \<in> set [53]. is_digit ascii_digits c"
    by (simp_all add: is_amount_def is_digit_def digit_value_def)
  have p1: "is_percent ascii_digits (50 # replicate 308 48) []"
    by (simp add: is_percent_def is_digit_def digit_value_def list_all_iff)
  have v1: "percent_value ascii_digits (50 # replicate 308 48) [] = 2 * 10 ^ 308"
    by (simp add: percent_value_def numeral_value_zero_run the_digit_def digit_value_def)
  have o1: "float_overflow \<le> 2 * 10 ^ 308"
    by (simp add: float_overflow_def)
  have 1: "parse_input ascii_digits (\<lambda>x. x)
     (rupee # [] @ [53] @ [32] @ at_sign # [32] @ (50 # replicate 308 48) @ [] @ [percent_sign])
     = Inr (Some (5, Infinity))"
    using parse_input_form [OF b(1) b(2) b(2) a1 p1, of "\<lambda>x. x"] o1
    by (simp add: v1 comma_def int_max_str_digits_def the_digit_def digit_value_def)
  have a2: "is_amount ascii_digits (replicate 4301 49)"
    "\<exists>c \<in> set (replicate 4301 49). is_digit ascii_digits c"
    by (simp_all add: is_amount_def is_digit_def digit_value_def list_all_iff)
  have p2: "is_percent ascii_digits [50] []"
    by (simp add: is_percent_def is_digit_def digit_value_def)
  have 2: "parse_input ascii_digits (\<lambda>x. x)
     (rupee # [] @ replicate 4301 49 @ [32] @ at_sign # [32] @ [50] @ [] @ [percent_sign])
     = Inl ValueError"
    using parse_input_form [OF b(1) b(2) b(2) a2 p2, of "\<lambda>x. x"]
    by (simp add: comma_def int_max_str_digits_def)
  show ?thesis using 1 2 by blast
qed

text \<open>
  Claim C8, as amended. When the message contains no text of the form of the pattern,
  \<open>parse_input\<close> returns \<open>(None, None)\<close>, and the handler sends the parse-error reply
  and nothing else, unless the stripped message is an "I buy SYMBOL" line: that line the
  handler leaves to \<open>buy_handler\<close> and sends no reply at all.
\<close>

theorem no_request_parse_failure:
  assumes "\<not> contains_request nd t"
  shows "parse_input nd rnd t = Inr None \<and>
         handle_message nd rnd agent t =
           (if re_match buy_line (strip t) \<noteq> None then Inr [] else Inr [ParseErrorReply])"
proof -
  have "\<not> contains_request nd (strip t)"
    using assms contains_request_strip by blast
  then have "parse_input nd rnd (strip t) = Inr None"
    by (rule parse_input_no_request)
  then show ?thesis
    using parse_input_no_request [OF assms, of rnd] by (simp add: handle_message_def Let_def)
qed

lemma hello_no_request: "\<not> contains_request nd (lit ''hello'')"
proof
  assume "contains_request nd (lit ''hello'')"
  then have "rupee \<in> set (lit ''hello'')" by (rule contains_request_rupee)
  then show False by (simp add: lit_def rupee_def)
qed

lemma rupee_abc_no_request: "\<not> contains_request nd (rupee # lit ''abc @ 3%'')"
proof -
  have "re_search (amount_percent nd) (rupee # lit ''abc @ 3%'') = None"
    by (simp add: scan_eval)
  then show ?thesis using search_finds_request [of nd "rupee # lit ''abc @ 3%''"] by simp
qed

lemma buy_line_hello: "re_match buy_line (strip (lit ''hello'')) = None"
  by (simp add: re_match_def buy_line_def strip_def lit_def is_space_def ci_I_def)

lemma buy_line_rupee_abc: "re_match buy_line (strip (rupee # lit ''abc @ 3%'')) = None"
  by (simp add: re_match_def buy_line_def strip_def lit_def is_space_def ci_I_def rupee_def)

theorem no_request_parse_failure_witness:
  "parse_input ascii_digits (\<lambda>x. x) (lit ''hello'') = Inr None \<and>
   handle_message ascii_digits (\<lambda>x. x) (\<lambda>p. Inl ValueError) (lit ''hello'')
     = Inr [ParseErrorReply] \<and>
   parse_input ascii_digits (\<lambda>x. x) (rupee # lit ''abc @ 3%'') = Inr None \<and>
   handle_message ascii_digits (\<lambda>x. x) (\<lambda>p. Inl ValueError) (rupee # lit ''abc @ 3%'')
     = Inr [ParseErrorReply]"
  using no_request_parse_failure [OF hello_no_request, of ascii_digits "\<lambda>x. x" "\<lambda>p. Inl ValueError"]
    no_request_parse_failure [OF rupee_abc_no_request, of ascii_digits "\<lambda>x. x" "\<lambda>p. Inl ValueError"]
  by (simp add: buy_line_hello buy_line_rupee_abc)

text \<open>
  Claim C8 as stated fails: the message \<open>I buy TCS\<close> does not contain the pattern, and
  the handler returns without any reply, a parse-error message included.
\<close>

theorem buy_line_no_reply:
  "\<not> contains_request ascii_digits (lit ''I buy TCS'') \<and>
   handle_message ascii_digits (\<lambda>x. x) (\<lambda>p. Inl ValueError) (lit ''I buy TCS'') = Inr []"
proof -
  have "rupee \<notin> set (lit ''I buy TCS'')" by (simp add: lit_def rupee_def)
  then have 1: "\<not> contains_request ascii_digits (lit ''I buy TCS'')"
    using contains_request_rupee by blast
  have "strip (lit ''I buy TCS'') = lit ''I buy TCS''"
    by (simp add: strip_def lit_def is_space_def)
  moreover have "re_match buy_line (lit ''I buy TCS'') \<noteq> None"
    by (simp add: re_match_def buy_line_def lit_def is_space_def ci_I_def ci_letter_or_dot_def
          dot_def)
  ultimately have "handle_message ascii_digits (\<lambda>x. x) (\<lambda>p. Inl ValueError) (lit ''I buy TCS'') = Inr []"
    by (simp add: handle_message_def Let_def)
  then show ?thesis using 1 by blast
qed

text \<open>
  Claim C9: the search does find the pattern anywhere in the message, but parsing does not
  always succeed on what it finds. In the message below the first match has an amount of
  one comma, \<open>int('')\<close> raises \<open>ValueError\<close>, and the well-formed request that follows,
  which alone parses to (5, 2.0), is never reached.
\<close>

theorem parse_input_comma_then_request:
  "parse_input ascii_digits (\<lambda>x. x) (rupee # lit '', @ 3% '' @ rupee # lit ''5 @ 2%'')
     = Inl ValueError \<and>
   parse_input ascii_digits (\<lambda>x. x) (rupee # lit ''5 @ 2%'') = Inr (Some (5, Finite 2))"
  using float_overflow_ge by (simp add: scan_eval ascii_digits_def)

text \<open>
  Claim C10: \<open>parse_input\<close> does not always return a pair. When the matched amount holds
  commas only, stripping them leaves the empty string and \<open>int\<close> raises \<open>ValueError\<close>,
  which nothing catches.
\<close>

theorem parse_input_comma_only:
  "parse_input ascii_digits (\<lambda>x. x) (rupee # lit '', @ 3%'') = Inl ValueError"
  by (simp add: scan_eval ascii_digits_def)

lemma percent_value_nonneg: "0 \<le> percent_value nd ip fr"
  by (simp add: percent_value_def)

lemma parse_input_outcomes:
  "parse_input nd rnd t = Inr None \<or> parse_input nd rnd t = Inl ValueError \<or>
   (\<exists>a. parse_input nd rnd t = Inr (Some (a, Infinity)) \<and> 0 \<le> a) \<or>
   (\<exists>a v. parse_input nd rnd t = Inr (Some (a, Finite (rnd v))) \<and> 0 \<le> a \<and> 0 \<le> v)"
proof (cases "re_search (amount_percent nd) t")
  case None
  then show ?thesis by (simp add: parse_input_def)
next
  case (Some m)
  obtain gs r where m: "m = (gs, r)" by (cases m)
  obtain pre s where "t = pre @ s" and "re_match (amount_percent nd) s = Some (gs, r)"
    using re_search_Some Some m by blast
  then have "scan_amount_percent nd s = Some (gs, r)"
    by (simp add: re_match_amount_percent)
  from scan_amount_percent_sound [OF this] obtain amt ip fr where
    f: "is_amount nd amt" "is_percent nd ip fr" "gs = [amt, ip @ fr]"
    by blast
  let ?ds = "filter (\<lambda>c. c \<noteq> comma) amt"
  let ?p = "if float_overflow \<le> percent_value nd ip fr then Infinity
            else Finite (rnd (percent_value nd ip fr))"
  have ds: "list_all (is_digit nd) ?ds"
    using f(1) by (simp add: is_amount_def filter_commas_digits)
  have p: "parse_input nd rnd t =
      (case py_int nd ?ds of Inl e \<Rightarrow> Inl e | Inr amount \<Rightarrow> Inr (Some (amount, ?p)))"
    using Some m f(3)
    by (simp add: parse_input_def py_float_percent [OF f(2)] split: sum.splits)
  show ?thesis
  proof (cases "?ds = [] \<or> int_max_str_digits < length ?ds")
    case True
    then show ?thesis by (auto simp: p py_int_def split: option.splits)
  next
    case False
    have "decimal nd 0 ?ds = Some (numeral_value nd ?ds)"
      using decimal_digits [OF ds, of 0] by simp
    then have "parse_input nd rnd t = Inr (Some (int (numeral_value nd ?ds), ?p))"
      using False by (simp add: p py_int_def)
    then show ?thesis using percent_value_nonneg [of nd ip fr] by auto
  qed
qed

section \<open>The advice flow\<close>

declare str_nat.simps [simp del]

lemma split_acc_line:
  "\<forall>c \<in> set l. \<not> is_linebreak c \<Longrightarrow> split_acc cur (l @ s) = split_acc (cur @ l) s"
proof (induction l arbitrary: cur)
  case Nil
  then show ?case by simp
next
  case (Cons c l)
  then have c: "\<not> is_linebreak c" by simp
  then have c13: "c \<noteq> 13" by (auto simp: is_linebreak_def)
  show ?case
  proof (cases "l @ s")
    case Nil
    then show ?thesis using c by simp
  next
    case (Cons d cs)
    have "split_acc cur (c # l @ s) = split_acc (cur @ [c]) (l @ s)"
      using c c13 Cons by simp
    also have "\<dots> = split_acc ((cur @ [c]) @ l) s"
      using Cons.prems Cons.IH [of "cur @ [c]"] \<open>\<forall>c\<in>set (c # l). \<not> is_linebreak c\<close> by simp
    finally show ?thesis by simp
  qed
qed

lemma split_acc_newline: "split_acc cur (10 # s) = cur # split_acc [] s"
  by (cases s) (simp_all add: is_linebreak_def)

lemma join_Cons: "xs \<noteq> [] \<Longrightarrow> join sep (x # xs) = x @ sep @ join sep xs"
  by (cases xs) simp_all

lemma splitlines_join:
  assumes "\<forall>l \<in> set ls. \<forall>c \<in> set l. \<not> is_linebreak c"
  shows "splitlines (join [10] ls) = (if ls = [] \<or> last ls = [] then butlast ls else ls)"
proof (cases "ls = []")
  case True
  then show ?thesis by (simp add: splitlines_def)
next
  case False
  then show ?thesis using assms
  proof (induction ls rule: list_nonempty_induct)
    case (single x)
    then show ?case using split_acc_line [of x "[]" "[]"] by (simp add: splitlines_def)
  next
    case (cons x xs)
    have "splitlines (join [10] (x # xs)) = split_acc [] (x @ 10 # join [10] xs)"
      using cons.hyps by (simp add: splitlines_def join_Cons)
    also have "\<dots> = split_acc x (10 # join [10] xs)"
      using cons.prems split_acc_line [of x "[]"] by simp
    also have "\<dots> = x # splitlines (join [10] xs)"
      by (simp add: split_acc_newline splitlines_def)
    also have "\<dots> = x # (if last xs = [] then butlast xs else xs)"
      using cons by simp
    finally show ?case using cons.hyps by simp
  qed
qed

lemma strip_empty_iff: "strip l = [] \<longleftrightarrow> blank l"
proof
  assume "strip l = []"
  then have "\<forall>x \<in> set (dropWhile is_space l). is_space x"
    by (simp add: strip_def dropWhile_eq_Nil_conv)
  then have all: "\<forall>x \<in> set (dropWhile is_space l). is_space x" .
  have "dropWhile is_space l = []"
  proof (cases "dropWhile is_space l")
    case Nil
    then show ?thesis .
  next
    case (Cons y ys)
    then have "\<not> is_space (hd (dropWhile is_space l))"
      using hd_dropWhile [of is_space l] by simp
    moreover have "is_space y" using all Cons by simp
    ultimately show ?thesis using Cons by simp
  qed
  then show "blank l" by (simp add: blank_def list_all_iff dropWhile_eq_Nil_conv)
next
  assume "blank l"
  then show "strip l = []"
    by (auto simp: strip_def blank_def list_all_iff dest: set_dropWhileD)
qed

lemma filter_butlast:
  "ls \<noteq> [] \<Longrightarrow> \<not> P (last ls) \<Longrightarrow> filter P (butlast ls) = filter P ls"
proof -
  assume a: "ls \<noteq> []" "\<not> P (last ls)"
  then have "filter P ls = filter P (butlast ls @ [last ls])" by simp
  also have "\<dots> = filter P (butlast ls)" using a(2) by simp
  finally show ?thesis by simp
qed

lemma nonblank_lines:
  assumes "\<forall>l \<in> set ls. \<forall>c \<in> set l. \<not> is_linebreak c"
  shows "filter (\<lambda>l. strip l \<noteq> []) (splitlines (join [10] ls)) = filter (\<lambda>l. \<not> blank l) ls"
proof (cases "ls = [] \<or> last ls = []")
  case True
  show ?thesis
  proof (cases "ls = []")
    case True
    then show ?thesis by (simp add: splitlines_def)
  next
    case False
    then have "\<not> (\<lambda>l. \<not> blank l) (last ls)" using True by (simp add: blank_def)
    then have "filter (\<lambda>l. \<not> blank l) (butlast ls) = filter (\<lambda>l. \<not> blank l) ls"
      by (rule filter_butlast [OF False])
    then show ?thesis using True by (simp add: splitlines_join [OF assms] strip_empty_iff)
  qed
next
  case False
  then show ?thesis by (simp add: splitlines_join [OF assms] strip_empty_iff)
qed

lemma numbered_from:
  "map (\<lambda>i. str_nat (i + k) @ [46, 32] @ ls ! i) [0..<length ls] = numbered_lines k ls"
proof (induction ls arbitrary: k)
  case Nil
  then show ?case by simp
next
  case (Cons l ls)
  have "[0..<length (l # ls)] = 0 # map Suc [0..<length ls]"
    by (simp add: upt_conv_Cons map_Suc_upt del: upt_Suc)
  then have "map (\<lambda>i. str_nat (i + k) @ [46, 32] @ (l # ls) ! i) [0..<length (l # ls)]
      = (str_nat k @ [46, 32] @ l) # map (\<lambda>i. str_nat (i + Suc k) @ [46, 32] @ ls ! i) [0..<length ls]"
    by (simp add: o_def del: upt_Suc)
  then show ?case using Cons [of "Suc k"] by simp
qed

lemma numbered_listing: "numbered ls = join [10] (numbered_lines 1 ls)"
  using numbered_from [of 1 ls] by (simp add: numbered_def)

lemma dropWhile_stop:
  "\<not> p y \<Longrightarrow> dropWhile p (xs @ y # ys) = dropWhile p xs @ y # ys"
  by (induction xs) auto

lemma takeWhile_until: "y \<notin> set xs \<Longrightarrow> takeWhile (\<lambda>c. c \<noteq> y) (xs @ y # ys) = xs"
  by (induction xs) auto

lemma not_space_dash: "\<not> is_space en_dash"
  by (simp add: is_space_def en_dash_def)

lemma strip_dashed:
  "strip (sy @ en_dash # rest)
     = dropWhile is_space sy @ en_dash # rev (dropWhile is_space (rev rest))"
proof -
  have "dropWhile is_space (sy @ en_dash # rest) = dropWhile is_space sy @ en_dash # rest"
    using dropWhile_stop [of is_space en_dash sy rest] not_space_dash by simp
  moreover have "dropWhile is_space (rev rest @ en_dash # rev (dropWhile is_space sy))
      = dropWhile is_space (rev rest) @ en_dash # rev (dropWhile is_space sy)"
    using dropWhile_stop [of is_space en_dash "rev rest" "rev (dropWhile is_space sy)"]
      not_space_dash by simp
  ultimately show ?thesis by (simp add: strip_def)
qed

lemma strip_dropWhile: "strip (dropWhile is_space s) = strip s"
  by (simp add: strip_def)

lemma top_of_dashed:
  assumes "en_dash \<notin> set sy"
  shows "strip (before_dash (strip (sy @ en_dash # rest))) = strip sy"
proof -
  have "en_dash \<notin> set (dropWhile is_space sy)"
    using assms set_dropWhileD by fastforce
  then have "takeWhile (\<lambda>c. c \<noteq> en_dash)
        (dropWhile is_space sy @ en_dash # rev (dropWhile is_space (rev rest)))
      = dropWhile is_space sy"
    by (rule takeWhile_until)
  then show ?thesis by (simp add: strip_dashed before_dash_def strip_dropWhile)
qed

lemma strip_dashed_nonempty: "strip (sy @ en_dash # rest) \<noteq> []"
  by (simp add: strip_dashed)


lemma not_linebreak_dash: "\<not> is_linebreak en_dash"
  by (simp add: is_linebreak_def en_dash_def)

lemmas text_eval =
  format_picks_def pick_lines_def splitlines_def strip_def is_space_def is_linebreak_def
  numbered_def str_nat.simps before_dash_def en_dash_def lit_def Let_def

text \<open>
  Claim C6, as amended. The separator the advice flow splits on is the en dash (U+2013),
  not the hyphen. Let the response be lines joined by newlines, some of them blank and
  the others of the form "symbol, en dash, rationale". Then the lines kept are the
  non-blank ones, stripped and in their order; the listing numbers them from 1 in that
  order; the top pick is the text before the first en dash of the first non-blank line
  and the symbol list holds the text before the first en dash of every non-blank line,
  each with the surrounding white space removed.
\<close>

theorem advice_top_pick:
  assumes "\<forall>l \<in> set ls. \<forall>c \<in> set l. \<not> is_linebreak c"
    and "filter (\<lambda>l. \<not> blank l) ls = map dashed_line ps"
    and "ps \<noteq> []"
    and "\<forall>p \<in> set ps. en_dash \<notin> set (fst p)"
  shows "pick_lines (join [10] ls) = map (\<lambda>p. strip (dashed_line p)) ps \<and>
         format_picks (join [10] ls)
           = Inr (join [10] (numbered_lines 1 (map (\<lambda>p. strip (dashed_line p)) ps)),
                  strip (fst (hd ps)),
                  join [44, 32] (map (\<lambda>p. strip (fst p)) ps))"
proof -
  have pl: "pick_lines (join [10] ls) = map (\<lambda>p. strip (dashed_line p)) ps"
    by (simp add: pick_lines_def nonblank_lines [OF assms(1)] assms(2) o_def)
  have sy: "map (\<lambda>ln. strip (before_dash ln)) (map (\<lambda>p. strip (dashed_line p)) ps)
      = map (\<lambda>p. strip (fst p)) ps"
    using assms(4) by (simp add: dashed_line_def top_of_dashed)
  obtain p ps' where ps: "ps = p # ps'" using assms(3) by (cases ps) auto
  then have "en_dash \<notin> set (fst p)" using assms(4) by simp
  then have top: "strip (before_dash (strip (dashed_line p))) = strip (fst p)"
    by (simp add: dashed_line_def top_of_dashed)
  have "format_picks (join [10] ls)
      = Inr (join [10] (numbered_lines 1 (map (\<lambda>p. strip (dashed_line p)) ps)),
             strip (fst (hd ps)),
             join [44, 32] (map (\<lambda>p. strip (fst p)) ps))"
    unfolding format_picks_def pl Let_def sy [symmetric] numbered_listing [symmetric]
    by (simp add: ps top)
  then show ?thesis using pl by blast
qed

theorem advice_top_pick_witness:
  "format_picks (lit ''  '' @ 10 # lit ''TCS '' @ en_dash # lit '' strong'' @ 10 # 10 #
                 lit ''INFY '' @ en_dash # lit '' ok'')
     = Inr (lit ''1. TCS '' @ en_dash # lit '' strong'' @ 10 # lit ''2. INFY '' @ en_dash # lit '' ok'',
            lit ''TCS'', lit ''TCS, INFY'')"
proof -
  let ?ls = "[lit ''  '', lit ''TCS '' @ en_dash # lit '' strong'', [],
              lit ''INFY '' @ en_dash # lit '' ok'']"
  let ?ps = "[(lit ''TCS '', lit '' strong''), (lit ''INFY '', lit '' ok'')]"
  have 1: "\<forall>l \<in> set ?ls. \<forall>c \<in> set l. \<not> is_linebreak c"
    by (simp add: lit_def en_dash_def is_linebreak_def)
  have 2: "filter (\<lambda>l. \<not> blank l) ?ls = map dashed_line ?ps"
    by (simp add: lit_def en_dash_def blank_def is_space_def dashed_line_def)
  have 3: "?ps \<noteq> []" by simp
  have 4: "\<forall>p \<in> set ?ps. en_dash \<notin> set (fst p)"
    by (simp add: lit_def en_dash_def)
  show ?thesis
    using advice_top_pick [OF 1 2 3 4]
    by (simp add: dashed_line_def strip_def is_space_def str_nat.simps en_dash_def lit_def)
qed

text \<open>
  Claim C6 as stated fails: on lines separated by hyphens nothing is split off, and the
  top pick is the whole first line.
\<close>

theorem hyphen_lines_not_split:
  "format_picks (lit ''TCS - strong'' @ 10 # lit ''INFY - ok'')
     = Inr (lit ''1. TCS - strong'' @ 10 # lit ''2. INFY - ok'',
            lit ''TCS - strong'', lit ''TCS - strong, INFY - ok'')"
  by (simp add: text_eval)

section \<open>The position store\<close>


text \<open>
  Claim C3, as amended. \<open>load_positions\<close> returns the empty list when the positions file
  is absent and the decoded value when the file holds a JSON document; when the contents
  fail to parse, the decoding error of \<open>json.load\<close> reaches the caller, since no copy of
  \<open>load_positions\<close> catches it.
\<close>

theorem load_positions_cases:
  "load_positions None = Inr (JArr []) \<and>
   load_positions (Some (Unparsable t)) = Inl JSONDecodeError \<and>
   load_positions (Some (Json v)) = Inr v"
  by (simp add: load_positions_def)

text \<open>
  Claim C3 as stated fails: on a file holding the single character \<open>{\<close> the result is
  the decoding error, not the empty list.
\<close>

theorem load_positions_parse_failure:
  "load_positions (Some (Unparsable (lit ''{''))) = Inl JSONDecodeError \<and>
   load_positions (Some (Unparsable (lit ''{''))) \<noteq> Inr (JArr [])"
  by (simp add: load_positions_def)

lemma the_digit_ascii: "ascii_digit c \<Longrightarrow> the_digit ascii_digits c = c - 48"
  by (simp add: the_digit_def digit_value_def ascii_digit_def)

lemma numeral_value_snoc:
  "numeral_value nd (xs @ [d]) = 10 * numeral_value nd xs + the_digit nd d"
  by (induction xs) (simp_all add: algebra_simps)

lemma str_nat_digits: "list_all ascii_digit (str_nat n)"
proof (induction n rule: str_nat.induct)
  case (1 n)
  show ?case
  proof (cases "n < 10")
    case True
    then show ?thesis by (subst str_nat.simps) (simp add: ascii_digit_def)
  next
    case False
    have "n mod 10 < 10" by simp
    then have "ascii_digit (48 + n mod 10)" unfolding ascii_digit_def by linarith
    then show ?thesis using False 1 by (subst str_nat.simps) simp
  qed
qed

lemma str_nat_value: "numeral_value ascii_digits (str_nat n) = n"
proof (induction n rule: str_nat.induct)
  case (1 n)
  show ?case
  proof (cases "n < 10")
    case True
    then have "ascii_digit (48 + n)" by (simp add: ascii_digit_def)
    then show ?thesis using True by (subst str_nat.simps) (simp add: the_digit_ascii)
  next
    case False
    have "n mod 10 < 10" by simp
    then have "ascii_digit (48 + n mod 10)" unfolding ascii_digit_def by linarith
    then have "the_digit ascii_digits (48 + n mod 10) = n mod 10"
      by (simp add: the_digit_ascii)
    then show ?thesis
      using False 1 by (subst str_nat.simps) (simp add: numeral_value_snoc)
  qed
qed

lemma str_nat_length: "n < 10 ^ k \<Longrightarrow> 0 < k \<Longrightarrow> length (str_nat n) \<le> k"
proof (induction n arbitrary: k rule: str_nat.induct)
  case (1 n)
  show ?case
  proof (cases "n < 10")
    case True
    then show ?thesis using 1(3) by (subst str_nat.simps) simp
  next
    case False
    obtain j where k: "k = Suc j" using 1(3) by (cases k) auto
    have "j \<noteq> 0" using False 1(2) k by (cases j) auto
    moreover have "n div 10 < 10 ^ j" using 1(2) k by (simp add: less_mult_imp_div_less)
    ultimately have "length (str_nat (n div 10)) \<le> j" using 1(1) [OF False] by simp
    then show ?thesis using False k by (subst str_nat.simps) simp
  qed
qed

lemma numeral_value_zeros:
  "numeral_value ascii_digits (replicate k 48 @ s) = numeral_value ascii_digits s"
  by (induction k) (simp_all add: the_digit_def digit_value_def)

lemma zfill_field:
  assumes "n < 10 ^ w" and "0 < w"
  shows "length (zfill w (str_nat n)) = w"
    and "list_all ascii_digit (zfill w (str_nat n))"
    and "numeral_value ascii_digits (zfill w (str_nat n)) = n"
proof -
  have "length (str_nat n) \<le> w" using assms by (rule str_nat_length)
  then show "length (zfill w (str_nat n)) = w" by (simp add: zfill_def)
  show "list_all ascii_digit (zfill w (str_nat n))"
    using str_nat_digits [of n] by (auto simp: zfill_def list_all_iff ascii_digit_def)
  show "numeral_value ascii_digits (zfill w (str_nat n)) = n"
    by (simp add: zfill_def numeral_value_zeros str_nat_value)
qed

lemma isoformat_wellformed:
  assumes "valid_datetime dt"
  shows "iso8601 (isoformat dt)"
proof -
  let ?y = "zfill 4 (str_nat (year dt))"
  let ?mo = "zfill 2 (str_nat (month dt))"
  let ?d = "zfill 2 (str_nat (day dt))"
  let ?h = "zfill 2 (str_nat (hour dt))"
  let ?mi = "zfill 2 (str_nat (minute dt))"
  let ?se = "zfill 2 (str_nat (second dt))"
  let ?us = "zfill 6 (str_nat (microsecond dt))"
  let ?fr = "if microsecond dt = 0 then [] else 46 # ?us"
  from assms have b: "year dt < 10 ^ 4" "month dt < 10 ^ 2" "day dt < 10 ^ 2" "hour dt < 10 ^ 2"
    "minute dt < 10 ^ 2" "second dt < 10 ^ 2" "microsecond dt < 10 ^ 6"
    by (simp_all add: valid_datetime_def)
  note y = zfill_field [OF b(1)]
  note mo = zfill_field [OF b(2)]
  note d = zfill_field [OF b(3)]
  note h = zfill_field [OF b(4)]
  note mi = zfill_field [OF b(5)]
  note se = zfill_field [OF b(6)]
  note us = zfill_field [OF b(7)]
  have fr: "?fr = [] \<or> (\<exists>us. ?fr = 46 # us \<and> length us = 6 \<and> list_all ascii_digit us)"
    using us by simp
  have "isoformat dt = ?y @ [45] @ ?mo @ [45] @ ?d @ [84] @ ?h @ [58] @ ?mi @ [58] @ ?se @ ?fr"
    by (simp add: isoformat_def)
  moreover have "length ?y = 4 \<and> length ?mo = 2 \<and> length ?d = 2 \<and>
        length ?h = 2 \<and> length ?mi = 2 \<and> length ?se = 2"
    using y mo d h mi se by simp
  moreover have "list_all ascii_digit (?y @ ?mo @ ?d @ ?h @ ?mi @ ?se)"
    using y mo d h mi se by simp
  moreover have "1 \<le> numeral_value ascii_digits ?mo \<and> numeral_value ascii_digits ?mo \<le> 12 \<and>
        1 \<le> numeral_value ascii_digits ?d \<and> numeral_value ascii_digits ?d \<le> 31 \<and>
        numeral_value ascii_digits ?h \<le> 23 \<and>
        numeral_value ascii_digits ?mi \<le> 59 \<and>
        numeral_value ascii_digits ?se \<le> 59"
    using assms mo d h mi se by (simp add: valid_datetime_def)
  ultimately show ?thesis
    unfolding iso8601_def using fr by blast
qed


lemma add_position_stored:
  assumes "file = None \<and> xs = [] \<or> file = Some (Json (JArr xs))"
  shows "add_position utcnow name price file
           = Inr (Some (Json (JArr (xs @ [new_position name price utcnow]))))"
  using assms by (auto simp: add_position_def load_positions_def save_positions_def)

text \<open>
  Claim C4, as amended. When the positions file is absent or holds a JSON array,
  \<open>add_position\<close> followed by \<open>load_positions\<close> yields the previous list with one record
  appended at the end: its symbol and entry price are the arguments and its timestamp is
  the ISO-8601 text of the UTC clock reading, which is well formed. Adding to the absent
  file gives a one-element list, a second add appends after the first, and every earlier
  entry stays at its index.
\<close>

theorem add_then_load:
  assumes "file = None \<and> xs = [] \<or> file = Some (Json (JArr xs))"
    and "valid_datetime now"
  shows "\<exists>f1 f2.
           add_position now sa pa file = Inr f1 \<and>
           load_positions f1 = Inr (JArr (xs @ [new_position sa pa now])) \<and>
           add_position later sb pb f1 = Inr f2 \<and>
           load_positions f2 = Inr (JArr (xs @ [new_position sa pa now, new_position sb pb later])) \<and>
           (\<forall>i < length xs. (xs @ [new_position sa pa now, new_position sb pb later]) ! i = xs ! i) \<and>
           new_position sa pa now
             = JObj [(lit ''symbol'', JStr sa), (lit ''entry_price'', JNum pa),
                     (lit ''timestamp'', JStr (isoformat now))] \<and>
           iso8601 (isoformat now) \<and>
           (file = None \<longrightarrow> load_positions f1 = Inr (JArr [new_position sa pa now]))"
proof -
  let ?f1 = "Some (Json (JArr (xs @ [new_position sa pa now])))"
  let ?f2 = "Some (Json (JArr ((xs @ [new_position sa pa now]) @ [new_position sb pb later])))"
  have 1: "add_position now sa pa file = Inr ?f1"
    using assms(1) by (rule add_position_stored)
  have 2: "add_position later sb pb ?f1 = Inr ?f2"
    by (rule add_position_stored) simp
  have 3: "load_positions ?f1 = Inr (JArr (xs @ [new_position sa pa now]))"
    "load_positions ?f2 = Inr (JArr (xs @ [new_position sa pa now, new_position sb pb later]))"
    by (simp_all add: load_positions_def)
  have 4: "\<forall>i < length xs. (xs @ [new_position sa pa now, new_position sb pb later]) ! i = xs ! i"
    by (simp add: nth_append)
  have 5: "file = None \<longrightarrow> load_positions ?f1 = Inr (JArr [new_position sa pa now])"
    using assms(1) by (auto simp: load_positions_def)
  have 6: "iso8601 (isoformat now)"
    using assms(2) by (rule isoformat_wellformed)
  have 7: "new_position sa pa now
             = JObj [(lit ''symbol'', JStr sa), (lit ''entry_price'', JNum pa),
                     (lit ''timestamp'', JStr (isoformat now))]"
    by (simp add: new_position_def)
  show ?thesis using 1 2 3 4 5 6 7 by blast
qed

lemma isoformat_new_year: "isoformat new_year = lit ''2025-01-01T09:30:00''"
  by (simp add: isoformat_def new_year_def zfill_def str_nat.simps lit_def)

theorem add_then_load_witness:
  "valid_datetime new_year \<and>
   add_position new_year (lit ''TCS'') 100 None
     = Inr (Some (Json (JArr [new_position (lit ''TCS'') 100 new_year]))) \<and>
   load_positions (Some (Json (JArr [new_position (lit ''TCS'') 100 new_year])))
     = Inr (JArr [JObj [(lit ''symbol'', JStr (lit ''TCS'')), (lit ''entry_price'', JNum 100),
                        (lit ''timestamp'', JStr (lit ''2025-01-01T09:30:00''))]]) \<and>
   iso8601 (lit ''2025-01-01T09:30:00'')"
proof -
  have v: "valid_datetime new_year"
    by (simp add: valid_datetime_def new_year_def)
  have "None = None \<and> [] = [] \<or> None = Some (Json (JArr []))" by simp
  from add_then_load [OF this v, where sa = "lit ''TCS''" and pa = 100 and later = new_year
      and sb = "lit ''INFY''" and pb = 200]
  obtain f1 where
    f: "add_position new_year (lit ''TCS'') 100 None = Inr f1"
      "load_positions f1 = Inr (JArr [new_position (lit ''TCS'') 100 new_year])"
      "iso8601 (isoformat new_year)"
    by auto
  have "f1 = Some (Json (JArr [new_position (lit ''TCS'') 100 new_year]))"
    using f(1) by (simp add: add_position_def load_positions_def save_positions_def)
  then show ?thesis
    using v f by (simp add: isoformat_new_year new_position_def)
qed

text \<open>
  Claim C4 as stated fails on store states outside that precondition: when the file does
  not parse, or holds a JSON value that is not an array, \<open>add_position\<close> raises and
  nothing is appended.
\<close>

theorem add_position_broken_store:
  "add_position new_year (lit ''TCS'') 100 (Some (Unparsable (lit ''{''))) = Inl JSONDecodeError \<and>
   add_position new_year (lit ''TCS'') 100 (Some (Json (JObj []))) = Inl AttributeError"
  by (simp add: add_position_def load_positions_def)

section \<open>The monitor\<close>

lemma check_positions_alerts:
  "check_positions rnd price ps acc = Inr alerts \<Longrightarrow>
     alerts = acc @ concat (map (position_alerts rnd price) ps)"
proof (induction ps arbitrary: acc alerts)
  case Nil
  then show ?case by simp
next
  case (Cons p ps)
  show ?case
  proof (cases "price (ticker_of (symbol p))")
    case None
    then show ?thesis using Cons by (simp add: position_alerts_def)
  next
    case (Some current)
    let ?c = "rnd (rnd (rnd (current - entry_price p) / entry_price p) * 100)"
    let ?new = "classify (symbol p) (entry_price p) current ?c"
    have nz: "entry_price p \<noteq> 0"
      using Cons.prems Some by (auto simp: change_pct_def split: if_splits)
    then have "check_positions rnd price ps (acc @ ?new) = Inr alerts"
      using Cons.prems Some by (simp add: change_pct_def)
    then have "alerts = (acc @ ?new) @ concat (map (position_alerts rnd price) ps)"
      by (rule Cons.IH)
    moreover have "position_alerts rnd price p = ?new"
      using Some by (simp add: position_alerts_def)
    ultimately show ?thesis by simp
  qed
qed

lemma check_positions_total:
  "(\<forall>p \<in> set ps. price (ticker_of (symbol p)) \<noteq> None \<longrightarrow> entry_price p \<noteq> 0) \<Longrightarrow>
     \<exists>alerts. check_positions rnd price ps acc = Inr alerts"
  by (induction ps arbitrary: acc) (auto simp: change_pct_def split: option.splits)

text \<open>
  Claim C1. The alert of a position depends only on the computed change: a change of at
  least \<open>UP_THRESHOLD = 3.0\<close> gives an "up" alert, a change of at most
  \<open>DOWN_THRESHOLD = -2.0\<close> a "down" alert, anything strictly between gives none, and the
  two boundary values themselves give alerts. The change is the floating-point value of
  \<open>((current - entry) / entry) * 100\<close>, each operation rounded by \<open>rnd\<close>. A cycle over
  positions whose priced entries are nonzero returns, in order, exactly the alerts of the
  positions whose price could be fetched.
\<close>

theorem alert_classification:
  "(UP_THRESHOLD \<le> c \<longrightarrow> classify name entry current c = [Alert Up name c current entry]) \<and>
   (c \<le> DOWN_THRESHOLD \<longrightarrow> classify name entry current c = [Alert Down name c current entry]) \<and>
   (DOWN_THRESHOLD < c \<and> c < UP_THRESHOLD \<longrightarrow> classify name entry current c = []) \<and>
   classify name entry current 3 = [Alert Up name 3 current entry] \<and>
   classify name entry current (- 2) = [Alert Down name (- 2) current entry] \<and>
   UP_THRESHOLD = 3 \<and> DOWN_THRESHOLD = - 2 \<and>
   (entry \<noteq> 0 \<longrightarrow>
      change_pct rnd entry current = Inr (rnd (rnd (rnd (current - entry) / entry) * 100))) \<and>
   ((\<forall>p \<in> set ps. price (ticker_of (symbol p)) \<noteq> None \<longrightarrow> entry_price p \<noteq> 0) \<longrightarrow>
      check_positions rnd price ps [] = Inr (concat (map (position_alerts rnd price) ps)))"
proof -
  have "check_positions rnd price ps [] = Inr (concat (map (position_alerts rnd price) ps))"
    if h: "\<forall>p \<in> set ps. price (ticker_of (symbol p)) \<noteq> None \<longrightarrow> entry_price p \<noteq> 0"
  proof -
    obtain alerts where a: "check_positions rnd price ps [] = Inr alerts"
      using check_positions_total [OF h] by blast
    then show ?thesis using check_positions_alerts [OF a] by simp
  qed
  then show ?thesis
    by (simp add: classify_def UP_THRESHOLD_def DOWN_THRESHOLD_def change_pct_def)
qed

theorem alert_classification_witness:
  "classify [65, 65, 65] 100 104 4 = [Alert Up [65, 65, 65] 4 104 100] \<and>
   classify [65, 65, 65] 100 97 (- 3) = [Alert Down [65, 65, 65] (- 3) 97 100] \<and>
   classify [65, 65, 65] 100 101 1 = [] \<and>
   change_pct (\<lambda>x. x) 100 104 = Inr 4 \<and>
   check_positions (\<lambda>x. x) (\<lambda>t. Some 104) [\<lparr>symbol = [65, 65, 65], entry_price = 100\<rparr>] []
     = Inr [Alert Up [65, 65, 65] 4 104 100]"
proof -
  let ?ps = "[\<lparr>symbol = [65, 65, 65], entry_price = 100\<rparr>]"
  note up = alert_classification [of 4 "[65, 65, 65]" 100 104 "\<lambda>x. x" ?ps "\<lambda>t. Some 104",
      unfolded UP_THRESHOLD_def DOWN_THRESHOLD_def]
  note down = alert_classification [of "- 3" "[65, 65, 65]" 100 97 "\<lambda>x. x" "[]" "\<lambda>t. Some 97",
      unfolded UP_THRESHOLD_def DOWN_THRESHOLD_def]
  note none = alert_classification [of 1 "[65, 65, 65]" 100 101 "\<lambda>x. x" "[]" "\<lambda>t. Some 101",
      unfolded UP_THRESHOLD_def DOWN_THRESHOLD_def]
  have 1: "classify [65, 65, 65] 100 104 4 = [Alert Up [65, 65, 65] 4 104 100]"
    using up by simp
  have 2: "classify [65, 65, 65] 100 97 (- 3) = [Alert Down [65, 65, 65] (- 3) 97 100]"
    using down by simp
  have 3: "classify [65, 65, 65] 100 101 1 = []"
    using none by simp
  have 4: "change_pct (\<lambda>x. x) 100 104 = Inr 4"
    using up by simp
  have "check_positions (\<lambda>x. x) (\<lambda>t. Some 104) ?ps []
      = Inr (concat (map (position_alerts (\<lambda>x. x) (\<lambda>t. Some 104)) ?ps))"
    using up by (simp del: check_positions.simps)
  then have 5: "check_positions (\<lambda>x. x) (\<lambda>t. Some 104) ?ps [] = Inr [Alert Up [65, 65, 65] 4 104 100]"
    by (simp add: position_alerts_def 1)
  show ?thesis using 1 2 3 4 5 by blast
qed

text \<open>
  Claim C5 as stated fails: \<open>start_monitor\<close> creates a loop task on every call, so two
  starts from the idle state leave two tasks.
\<close>

theorem start_twice_two_loops:
  "loop_tasks (start_monitor 7 (start_monitor 7 idle)) = 2 \<and>
   loop_wake (start_monitor 7 idle) = Sleeps \<and>
   loop_wake (start_monitor 7 (start_monitor 7 idle)) = Sleeps"
  by (simp add: start_monitor_def clear_positions_def idle_def loop_wake_def load_positions_def)

text \<open>
  Claim C5, as amended. Every start command creates one more loop task, whether or not
  one is running: after two starts in a row there are two more tasks than before. A task
  that wakes after either start finds the marker file and an empty position list and
  sleeps again, so none of them has returned. The position list is cleared and the
  second sender is the recorded recipient.
\<close>

theorem start_twice:
  "loop_tasks (start_monitor c2 (start_monitor c1 m)) = loop_tasks m + 2 \<and>
   loop_wake (start_monitor c1 m) = Sleeps \<and>
   loop_wake (start_monitor c2 (start_monitor c1 m)) = Sleeps \<and>
   monitor_flag_file (start_monitor c2 (start_monitor c1 m)) \<and>
   positions_file (start_monitor c2 (start_monitor c1 m)) = Some (Json (JArr [])) \<and>
   load_positions (positions_file (start_monitor c2 (start_monitor c1 m))) = Inr (JArr []) \<and>
   chat_id_file (start_monitor c2 (start_monitor c1 m)) = Some (str_int c2)"
  by (simp add: start_monitor_def clear_positions_def loop_wake_def load_positions_def)

text \<open>
  Claim C7. \<open>stop_monitor\<close> removes the marker file and sends its reply; the recipient
  file, the positions file and the loop tasks are as before. When the marker is absent
  the only effect is the reply: the guard \<open>os.path.exists\<close> keeps \<open>os.remove\<close> from being
  called, so the model has no error result.
\<close>

theorem stop_monitor_frame:
  "chat_id_file (stop_monitor m) = chat_id_file m \<and>
   positions_file (stop_monitor m) = positions_file m \<and>
   loop_tasks (stop_monitor m) = loop_tasks m \<and>
   \<not> monitor_flag_file (stop_monitor m) \<and>
   replies (stop_monitor m) = replies m @ [MonitoringStopped] \<and>
   (\<not> monitor_flag_file m \<longrightarrow> stop_monitor m = m\<lparr>replies := replies m @ [MonitoringStopped]\<rparr>)"
  by (simp add: stop_monitor_def)

theorem stop_monitor_frame_witness:
  "chat_id_file (stop_monitor idle) = None \<and>
   positions_file (stop_monitor idle) = None \<and>
   stop_monitor idle = idle\<lparr>replies := [MonitoringStopped]\<rparr>"
  using stop_monitor_frame [of idle] by (simp add: idle_def)

end
